theory Spec2Isabelle
  imports Main
begin

section \<open>Wire protocol: Message and Response\<close>

text \<open>
  Modelled from the spec: \<open>OutputType\<close> is imported by \<open>http_server.py\<close> from
  \<open>http_utils\<close>, which is not among the sources. The server names the members
  \<open>RESULT\<close>, \<open>RESULT_STREAM\<close>, \<open>STDOUT\<close> and \<open>EXCEPTION\<close>; the spec lists exactly these.
\<close>

datatype OutputType = RESULT | RESULT_STREAM | STDOUT | EXCEPTION

text \<open>
  Exceptions of the Python code, as values. \<open>EnvDoesNotExist n\<close> is the
  \<open>Exception("Environment n does not exist. Please send it to the cluster first.")\<close>
  of \<open>get_env_servlet\<close>; \<open>GetTimeoutError\<close> is \<open>ray.exceptions.GetTimeoutError\<close>;
  \<open>NotAnObjectRef\<close> is what \<open>ray.get\<close> raises when it is handed something that is not an
  object reference; \<open>OtherError\<close> stands for every other exception (a failed task, an
  unreadable file, a failed unpickling), with its message.
\<close>

datatype exn = EnvDoesNotExist string | GetTimeoutError | NotAnObjectRef | OtherError string

text \<open>
  The payload of a Response is either an opaque pickled text or, for \<open>STDOUT\<close>, the list
  of log lines (\<open>data=ret_lines\<close>).
\<close>

datatype payload = Pickled string | Lines "string list"

text \<open>
  \<open>Response(data=..., error=..., traceback=..., output_type=...)\<close>. The field
  \<open>error\<close> holds \<open>pickle_b64(e)\<close> and \<open>traceback\<close> holds
  \<open>pickle_b64(traceback.format_exc())\<close>, the formatted trace of the exception being
  handled: both are determined by the exception, which is what the fields hold here.
\<close>

record response =
  resp_data :: "payload option"
  resp_error :: "exn option"
  resp_traceback :: "exn option"
  output_type :: OutputType

record message =
  msg_key :: "string option"
  msg_env :: "string option"
  msg_data :: "string option"
  stream_logs :: bool
  save :: bool
  remote :: bool

definition exception_response :: "exn \<Rightarrow> response" where
  "exception_response e =
     \<lparr>resp_data = None, resp_error = Some e, resp_traceback = Some e, output_type = EXCEPTION\<rparr>"

text \<open>Python truthiness of an optional string, and \<open>a or b\<close> on optional strings.\<close>

fun truthy :: "string option \<Rightarrow> bool" where
  "truthy None = False"
| "truthy (Some s) = (s \<noteq> [])"

definition py_or :: "string option \<Rightarrow> string option \<Rightarrow> string option" where
  "py_or a b = (if truthy a then a else b)"

definition or_base :: "string option \<Rightarrow> string" where
  "or_base env = (case py_or env (Some ''base'') of Some n \<Rightarrow> n | None \<Rightarrow> ''base'')"

section \<open>Environment registry\<close>

text \<open>
  The state of the server process and of the actor runtime it talks to.
  \<open>env_servlets\<close> is the process-wide dictionary of \<open>rh_config\<close>; \<open>actors\<close> is the table of
  named actors of the Ray namespace \<open>runhouse\<close> (actors are created detached, so the
  table outlives the server process); an actor is identified by a number, and
  \<open>constructed\<close> counts the actors constructed so far (it is also the next fresh
  identity). \<open>store\<close> is the object store each Environment actor owns, \<open>activity\<close>
  counts the calls of \<open>register_activity\<close>, and \<open>refs\<close> is the server's own object
  store, where \<open>call_module_method\<close> keeps what it submitted under \<open>key + "_ref"\<close>.
\<close>

type_synonym actor = nat

text \<open>
  What \<open>call_in_env_servlet\<close> hands back: the value the servlet method returned
  (\<open>block=True\<close>), the object reference of the submitted call (\<open>block=False\<close>), or the
  \<open>EXCEPTION\<close> Response built by its handler.
\<close>

datatype 'r servlet_result = Value 'r | ObjectRef actor | Failure response

record server =
  env_servlets :: "string \<rightharpoonup> actor"
  actors :: "string \<rightharpoonup> actor"
  constructed :: nat
  store :: "actor \<Rightarrow> (string option \<rightharpoonup> string option)"
  activity :: nat
  refs :: "string \<rightharpoonup> unit servlet_result"

definition register_activity :: "server \<Rightarrow> server" where
  "register_activity s = s\<lparr>activity := activity s + 1\<rparr>"

text \<open>
  \<open>ray.remote(EnvServlet).options(name=env_name, get_if_exists=True, lifetime="detached",
  namespace="runhouse", ...).remote(env_name=env_name)\<close>: the runtime hands back the
  actor of that name when there is one and constructs a new one otherwise.
\<close>

definition ray_get_or_create :: "string \<Rightarrow> server \<Rightarrow> actor \<times> server" where
  "ray_get_or_create env_name s =
     (case actors s env_name of
        Some a \<Rightarrow> (a, s)
      | None \<Rightarrow>
          (constructed s,
           s\<lparr>actors := (actors s)(env_name \<mapsto> constructed s),
             constructed := constructed s + 1\<rparr>))"

definition get_env_servlet :: "string \<Rightarrow> bool \<Rightarrow> server \<Rightarrow> (exn + actor) \<times> server" where
  "get_env_servlet env_name create s =
     (case env_servlets s env_name of
        Some a \<Rightarrow> (Inr a, s)
      | None \<Rightarrow>
          if create then
            (let (new_env, s1) = ray_get_or_create env_name s
             in (Inr new_env, s1\<lparr>env_servlets := (env_servlets s1)(env_name \<mapsto> new_env)\<rparr>))
          else (Inl (EnvDoesNotExist env_name), s))"

section \<open>Dispatch into an Environment\<close>

text \<open>
  \<open>lookup_env_for_name(name)\<close> with the default \<open>check_rns=False\<close>, the only way this
  file calls it. \<open>obj_store.get_env\<close> belongs to \<open>rh_config\<close>, which is not among the
  sources: it is the parameter \<open>get_env\<close>.
\<close>

definition lookup_env_for_name :: "(string \<Rightarrow> string option) \<Rightarrow> string \<Rightarrow> string option" where
  "lookup_env_for_name get_env name = (let env = get_env name in if truthy env then env else None)"

text \<open>
  A servlet method, applied to its arguments already, runs inside the actor: it returns a
  value or raises, and may change the actor's store. Every servlet here is an actor
  handle (\<open>get_env_servlet\<close> registers nothing else), so \<open>call_servlet_method\<close> is its
  \<open>ActorHandle\<close> branch: \<open>method.remote(*args)\<close>, then \<open>ray.get\<close> when \<open>block\<close>. With
  \<open>block=False\<close> the reference is returned at once; the call completes in the actor
  later and its outcome is delivered through \<open>ray.get\<close>.
\<close>

type_synonym 'r servlet_method = "actor \<Rightarrow> server \<Rightarrow> (exn + 'r) \<times> server"

definition call_servlet_method ::
  "actor \<Rightarrow> 'r servlet_method \<Rightarrow> bool \<Rightarrow> server \<Rightarrow> (exn + 'r servlet_result) \<times> server" where
  "call_servlet_method servlet method block s =
     (if block then
        (case method servlet s of
           (Inl e, s1) \<Rightarrow> (Inl e, s1)
         | (Inr r, s1) \<Rightarrow> (Inr (Value r), s1))
      else (Inr (ObjectRef servlet), s))"

text \<open>
  The name \<open>call_in_env_servlet\<close> resolves before it asks the registry:
  \<open>env = env or lookup_env_for_name(lookup_env_for_name)\<close> when a lookup name was given,
  then \<open>env or "base"\<close>.
\<close>

definition target_env ::
  "(string \<Rightarrow> string option) \<Rightarrow> string option \<Rightarrow> string option \<Rightarrow> string" where
  "target_env get_env env lookup_name =
     or_base (case lookup_name of
                None \<Rightarrow> env
              | Some n \<Rightarrow> if n \<noteq> [] then py_or env (lookup_env_for_name get_env n) else env)"

definition call_in_env_servlet ::
  "(string \<Rightarrow> string option) \<Rightarrow> 'r servlet_method \<Rightarrow> string option \<Rightarrow> bool \<Rightarrow>
   string option \<Rightarrow> bool \<Rightarrow> server \<Rightarrow> 'r servlet_result \<times> server" where
  "call_in_env_servlet get_env method env create lookup_name block s =
     (let s0 = register_activity s
      in case get_env_servlet (target_env get_env env lookup_name) create s0 of
           (Inl e, s1) \<Rightarrow> (Failure (exception_response e), register_activity s1)
         | (Inr servlet, s1) \<Rightarrow>
             (case call_servlet_method servlet method block s1 of
                (Inl e, s2) \<Rightarrow> (Failure (exception_response e), register_activity s2)
              | (Inr r, s2) \<Rightarrow> (r, s2)))"

text \<open>
  A server process that has just started on a runtime with no actors, and
  \<open>HTTPServer.__init__\<close>: it creates and registers the \<open>base\<close> Environment and registers
  activity (the collection of cluster statistics has no effect on this state).
\<close>

definition fresh_server :: server where
  "fresh_server =
     \<lparr>env_servlets = Map.empty, actors = Map.empty, constructed = 0,
      store = (\<lambda>_. Map.empty), activity = 0, refs = Map.empty\<rparr>"

definition HTTPServer_init :: "server \<Rightarrow> server" where
  "HTTPServer_init s =
     (case get_env_servlet ''base'' True s of
        (Inr base_env, s1) \<Rightarrow>
          register_activity (s1\<lparr>env_servlets := (env_servlets s1)(''base'' \<mapsto> base_env)\<rparr>)
      | (Inl e, s1) \<Rightarrow> s1)"

section \<open>Streaming a call: results and logs\<close>

definition stdout_response :: "string list \<Rightarrow> response" where
  "stdout_response ret_lines =
     \<lparr>resp_data = Some (Lines ret_lines), resp_error = None, resp_traceback = None,
      output_type = STDOUT\<rparr>"

text \<open>
  What the file system shows during one pass through a streaming loop:
  \<^item> \<open>logfiles\<close>: the log files found for the key (\<open>None\<close> when the directory of the key
    does not exist);
  \<^item> \<open>open_error\<close>: whether \<open>open(f, "r")\<close> raises, with the message;
  \<^item> \<open>readlines\<close>: the lines a file has gained since it was last read, or the message of
    the error reading it raises.
  An open file is identified by its path (\<open>o.name\<close>).
\<close>

record log_tick =
  logfiles :: "string list option"
  open_error :: "string \<Rightarrow> string option"
  readlines :: "string \<Rightarrow> string + string list"

text \<open>
  One pass of the loop that streams a call adds \<open>ray_get\<close>: the outcome of
  \<open>ray.get(obj_ref, timeout=LOGGING_WAIT_TIME)\<close>, an exception (\<open>GetTimeoutError\<close> among
  them), \<open>None\<close> or a Response. There, \<open>logfiles\<close> is what \<open>_get_logfiles(key)\<close> returns.
\<close>

record tick = log_tick +
  ray_get :: "exn + response option"

text \<open>
  The \<open>for\<close> loop of \<open>open_new_logfiles\<close>. The list \<open>open_files\<close> is extended in place,
  so when an \<open>open\<close> raises, the files appended before it stay in the caller's list: the
  list is returned beside the exception.
\<close>

fun open_each ::
  "(string \<Rightarrow> string option) \<Rightarrow> string list \<Rightarrow> string list \<Rightarrow> exn option \<times> string list" where
  "open_each err [] open_files = (None, open_files)"
| "open_each err (f # fs) open_files =
     (if f \<in> set open_files then open_each err fs open_files
      else (case err f of
              Some m \<Rightarrow> (Some (OtherError m), open_files)
            | None \<Rightarrow> open_each err fs (open_files @ [f])))"

definition open_new_logfiles :: "'a log_tick_scheme \<Rightarrow> string list \<Rightarrow> exn option \<times> string list" where
  "open_new_logfiles t open_files =
     (case logfiles t of
        None \<Rightarrow> (None, open_files)
      | Some fs \<Rightarrow> open_each (open_error t) fs open_files)"

text \<open>The loop \<open>for i, f in enumerate(open_logfiles)\<close> that gathers \<open>ret_lines\<close>.\<close>

fun read_all :: "(string \<Rightarrow> string + string list) \<Rightarrow> string list \<Rightarrow> exn + string list" where
  "read_all rd [] = Inr []"
| "read_all rd (f # fs) =
     (case rd f of
        Inl m \<Rightarrow> Inl (OtherError m)
      | Inr file_lines \<Rightarrow>
          (case read_all rd fs of
             Inl e \<Rightarrow> Inl e
           | Inr rest \<Rightarrow> Inr (file_lines @ rest)))"

text \<open>
  The log part of one pass: \<open>open_logfiles = open_new_logfiles(key, open_logfiles) if
  stream_logs else []\<close>, then the reading loop. It gives the lines (or the exception
  raised) and the list of open files.
\<close>

definition flush_logs ::
  "bool \<Rightarrow> 'a log_tick_scheme \<Rightarrow> string list \<Rightarrow> (exn + string list) \<times> string list" where
  "flush_logs stream_logs_flag t open_logfiles =
     (if stream_logs_flag then
        (case open_new_logfiles t open_logfiles of
           (Some e, fs) \<Rightarrow> (Inl e, fs)
         | (None, fs) \<Rightarrow> (read_all (readlines t) fs, fs))
      else (Inr [], []))"

text \<open>
  With \<open>block=False\<close> the servlet method \<open>_get_result_from_stream\<close> is only submitted;
  its outcome arrives through \<open>ray_get\<close>.
\<close>

definition submitted :: "unit servlet_method" where
  "submitted a s = (Inr (), s)"

text \<open>
  \<open>ray.get\<close> on what \<open>call_in_env_servlet\<close> handed back: the handler's Response is not
  an object reference.
\<close>

fun ray_get_on :: "unit servlet_result \<Rightarrow> tick \<Rightarrow> exn + response option" where
  "ray_get_on (ObjectRef a) t = ray_get t"
| "ray_get_on (Value v) t = Inl NotAnObjectRef"
| "ray_get_on (Failure r) t = Inl NotAnObjectRef"

text \<open>
  How a generator stops: its body ran to the end (\<open>Closed\<close>), an exception left it
  (\<open>Raised\<close>), or it is still in its loop when the scripted passes are used up
  (\<open>Polling\<close>).
\<close>

datatype ending = Closed | Raised exn | Polling

text \<open>
  One pass through the body of \<open>while waiting_for_results\<close>, with the handler of the
  enclosing \<open>try\<close>: \<open>Stop\<close> when the loop is left (through \<open>waiting_for_results = False\<close>
  or through the handler, which yields the \<open>EXCEPTION\<close> Response), \<open>Again\<close> when it goes
  round once more. Both carry the Responses yielded in the pass, the open files and the state.
\<close>

datatype pass =
    Stop "response list" "string list" server
  | Again "response list" "unit servlet_result option" "string list" server

definition after_poll ::
  "bool \<Rightarrow> tick \<Rightarrow> string list \<Rightarrow> server \<Rightarrow> response list \<Rightarrow> unit servlet_result option \<Rightarrow>
   bool \<Rightarrow> pass" where
  "after_poll stream_logs_flag t open_logfiles s ys obj_ref waiting_for_results =
     (case flush_logs stream_logs_flag t open_logfiles of
        (Inl e, fs) \<Rightarrow> Stop (ys @ [exception_response e]) fs s
      | (Inr ret_lines, fs) \<Rightarrow>
          (let zs = ys @ (if ret_lines \<noteq> [] then [stdout_response ret_lines] else [])
           in if waiting_for_results then Again zs obj_ref fs s else Stop zs fs s))"

text \<open>\<open>if not obj_ref: obj_ref = HTTPServer.call_in_env_servlet(...)\<close>, at the head of a pass.\<close>

definition issue ::
  "(string \<Rightarrow> string option) \<Rightarrow> string option \<Rightarrow> unit servlet_result option \<Rightarrow> server \<Rightarrow>
   unit servlet_result \<times> server" where
  "issue get_env env obj_ref s =
     (case obj_ref of
        None \<Rightarrow> call_in_env_servlet get_env submitted env False None False s
      | Some r \<Rightarrow> (r, s))"

definition loop_pass ::
  "(string \<Rightarrow> string option) \<Rightarrow> string option \<Rightarrow> bool \<Rightarrow> unit servlet_result option \<Rightarrow>
   string list \<Rightarrow> tick \<Rightarrow> server \<Rightarrow> pass" where
  "loop_pass get_env env stream_logs_flag obj_ref open_logfiles t s =
     (let (ref, s1) = issue get_env env obj_ref s
      in case ray_get_on ref t of
           Inl e \<Rightarrow>
             if e = GetTimeoutError
             then after_poll stream_logs_flag t open_logfiles s1 [] (Some ref) True
             else Stop [exception_response e] open_logfiles s1
         | Inr None \<Rightarrow> after_poll stream_logs_flag t open_logfiles s1 [] None True
         | Inr (Some ret_val) \<Rightarrow>
             after_poll stream_logs_flag t open_logfiles s1 [ret_val] None
               (output_type ret_val = RESULT_STREAM))"

fun results_loop ::
  "(string \<Rightarrow> string option) \<Rightarrow> string option \<Rightarrow> bool \<Rightarrow> unit servlet_result option \<Rightarrow>
   string list \<Rightarrow> tick list \<Rightarrow> server \<Rightarrow> response list \<times> ending \<times> string list \<times> server" where
  "results_loop get_env env stream_logs_flag obj_ref open_logfiles [] s =
     ([], Polling, open_logfiles, s)"
| "results_loop get_env env stream_logs_flag obj_ref open_logfiles (t # ts) s =
     (case loop_pass get_env env stream_logs_flag obj_ref open_logfiles t s of
        Stop ys fs s1 \<Rightarrow> (ys, Closed, fs, s1)
      | Again ys ref fs s1 \<Rightarrow>
          (case results_loop get_env env stream_logs_flag ref fs ts s1 of
             (zs, en, fs', s') \<Rightarrow> (ys @ zs, en, fs', s')))"

text \<open>
  \<open>_get_results_and_logs_generator(key, env, stream_logs)\<close>, run against the passes the
  world supplies for this key: the Responses it yields (each stands for its JSON text),
  how it stopped, the files the \<open>finally\<close> clause closes, and the state.
\<close>

definition get_results_and_logs_generator ::
  "(string \<Rightarrow> string option) \<Rightarrow> string option \<Rightarrow> bool \<Rightarrow> tick list \<Rightarrow> server \<Rightarrow>
   response list \<times> ending \<times> string list \<times> server" where
  "get_results_and_logs_generator get_env env stream_logs_flag ticks s =
     results_loop get_env env stream_logs_flag None [] ticks s"

section \<open>Object store and object fetch\<close>

text \<open>
  Modelled from the spec: the Object Store of an Environment. The servlet class
  (\<open>EnvServlet\<close>, \<open>runhouse/rns/servlet.py\<close>) is not among the sources; the server only
  names its methods. The spec: \<open>put(key, value)\<close> is an unconditional upsert that
  overwrites silently; \<open>get(key, timeout)\<close> gives the value when the key is present and
  "absent" otherwise, without changing the store. The value comes back as a \<open>RESULT\<close>
  Response and "absent" as \<open>None\<close>, which is what the loop of the fetch tests.
\<close>

definition servlet_put_object :: "string option \<Rightarrow> string option \<Rightarrow> unit servlet_method" where
  "servlet_put_object key data_value a s =
     (Inr (), s\<lparr>store := (store s)(a := (store s a)(key \<mapsto> data_value))\<rparr>)"

definition result_response :: "string option \<Rightarrow> response" where
  "result_response v =
     \<lparr>resp_data = map_option Pickled v, resp_error = None, resp_traceback = None,
      output_type = RESULT\<rparr>"

definition servlet_get :: "string \<Rightarrow> response option servlet_method" where
  "servlet_get key a s = (Inr (map_option result_response (store s a (Some key))), s)"

text \<open>
  The route \<open>POST /object\<close>. Like every route below it hands back, beside its reply and
  the state, the Message as it is when the route is done.
\<close>

definition put_object ::
  "(string \<Rightarrow> string option) \<Rightarrow> message \<Rightarrow> server \<Rightarrow> unit servlet_result \<times> message \<times> server" where
  "put_object get_env message s =
     (case call_in_env_servlet get_env (servlet_put_object (msg_key message) (msg_data message))
             (msg_env message) True None True s of
        (r, s1) \<Rightarrow> (r, message, s1))"

text \<open>
  One pass of the loop of \<open>_get_object_and_logs_generator\<close>. Here \<open>logfiles\<close> is what the
  servlet method \<open>get_logfiles\<close> returns for the key, and \<open>others\<close> is what the rest of the
  system does to the state before the next pass (a call that stores its result, say).
\<close>

record fetch_tick = log_tick +
  others :: "server \<Rightarrow> server"

text \<open>\<open>[open(i, "r") for i in (logfiles or [])]\<close>: the list is built only if no \<open>open\<close> raises.\<close>

fun open_all :: "(string \<Rightarrow> string option) \<Rightarrow> string list \<Rightarrow> exn + string list" where
  "open_all err [] = Inr []"
| "open_all err (f # fs) =
     (case err f of
        Some m \<Rightarrow> Inl (OtherError m)
      | None \<Rightarrow> (case open_all err fs of Inl e \<Rightarrow> Inl e | Inr rest \<Rightarrow> Inr (f # rest)))"

text \<open>
  \<open>if not logfiles: logfiles = call_in_env_servlet("get_logfiles", ...); open_files =
  [...]\<close>. When the call comes back as the handler's Response, iterating that Response
  gives pairs of a field name and a value, and \<open>open\<close> raises on the first of them.
\<close>

definition fetch_logfiles ::
  "(string \<Rightarrow> string option) \<Rightarrow> string option \<Rightarrow> string \<Rightarrow> string list option \<Rightarrow> string list \<Rightarrow>
   fetch_tick \<Rightarrow> server \<Rightarrow> (exn + string list option \<times> string list) \<times> server" where
  "fetch_logfiles get_env env key known open_files t s =
     (if known \<noteq> None \<and> known \<noteq> Some [] then (Inr (known, open_files), s)
      else
        (case call_in_env_servlet get_env (\<lambda>a s'. (Inr (logfiles t), s')) env False (Some key) True s of
           (Value lf, s1) \<Rightarrow>
             (case open_all (open_error t) (case lf of None \<Rightarrow> [] | Some fs \<Rightarrow> fs) of
                Inl e \<Rightarrow> (Inl e, s1)
              | Inr fs \<Rightarrow> (Inr (lf, fs), s1))
         | (r, s1) \<Rightarrow> (Inl (OtherError ''open''), s1)))"

datatype fetch =
    Got "response list" response "string list" server
  | Wait "response list" "string list option" "string list" server
  | Fault exn "string list" server

definition fetch_pass ::
  "(string \<Rightarrow> string option) \<Rightarrow> string option \<Rightarrow> string \<Rightarrow> bool \<Rightarrow> string list option \<Rightarrow>
   string list \<Rightarrow> fetch_tick \<Rightarrow> server \<Rightarrow> fetch" where
  "fetch_pass get_env env key stream_logs_flag known open_files t s =
     (case call_in_env_servlet get_env (servlet_get key) env False (Some key) True s of
        (ret_obj, s1) \<Rightarrow>
          (let done = (\<lambda>ys lf fs s2.
                 case ret_obj of
                   Value None \<Rightarrow> Wait ys lf fs s2
                 | Value (Some r) \<Rightarrow> Got ys r fs s2
                 | Failure r \<Rightarrow> Got ys r fs s2
                 | ObjectRef a \<Rightarrow> Wait ys lf fs s2)
           in if stream_logs_flag then
                (case fetch_logfiles get_env env key known open_files t s1 of
                   (Inl e, s2) \<Rightarrow> Fault e open_files s2
                 | (Inr (lf, fs), s2) \<Rightarrow>
                     (case read_all (readlines t) fs of
                        Inl e \<Rightarrow> Fault e fs s2
                      | Inr ret_lines \<Rightarrow>
                          done (if ret_lines \<noteq> [] then [stdout_response ret_lines] else []) lf fs s2))
              else done [] known open_files s1))"

fun fetch_loop ::
  "(string \<Rightarrow> string option) \<Rightarrow> string option \<Rightarrow> string \<Rightarrow> bool \<Rightarrow> string list option \<Rightarrow>
   string list \<Rightarrow> fetch_tick list \<Rightarrow> server \<Rightarrow> response list \<times> ending \<times> string list \<times> server" where
  "fetch_loop get_env env key stream_logs_flag known open_files [] s =
     ([], Polling, open_files, s)"
| "fetch_loop get_env env key stream_logs_flag known open_files (t # ts) s =
     (case fetch_pass get_env env key stream_logs_flag known open_files t s of
        Got ys ret_obj fs s1 \<Rightarrow> (ys @ [ret_obj], Closed, fs, s1)
      | Fault e fs s1 \<Rightarrow> ([], Raised e, fs, s1)
      | Wait ys lf fs s1 \<Rightarrow>
          (case fetch_loop get_env env key stream_logs_flag lf fs ts (others t s1) of
             (zs, en, fs', s') \<Rightarrow> (ys @ zs, en, fs', s')))"

text \<open>
  \<open>_get_object_and_logs_generator(message)\<close>. \<open>b64_unpickle\<close> belongs to \<open>http_utils\<close>,
  which is not among the sources: it is the parameter \<open>unpickle\<close>, which gives the pair
  \<open>(key, stream_logs)\<close> the payload holds, or the exception. No \<open>try\<close> encloses the body of
  this generator, so an exception leaves it.
\<close>

definition get_object_and_logs_generator ::
  "(string \<Rightarrow> string option) \<Rightarrow> (string option \<Rightarrow> exn + string \<times> bool) \<Rightarrow> message \<Rightarrow>
   fetch_tick list \<Rightarrow> server \<Rightarrow> response list \<times> ending \<times> string list \<times> server" where
  "get_object_and_logs_generator get_env unpickle message ticks s =
     (case unpickle (msg_data message) of
        Inl e \<Rightarrow> ([], Raised e, [], s)
      | Inr (key, stream_logs_flag) \<Rightarrow>
          fetch_loop get_env (msg_env message) key stream_logs_flag None [] ticks s)"

text \<open>A sequence of \<open>POST /object\<close> requests, served one after the other.\<close>

definition put_all :: "(string \<Rightarrow> string option) \<Rightarrow> message list \<Rightarrow> server \<Rightarrow> server" where
  "put_all get_env ms s = foldl (\<lambda>s' m. snd (snd (put_object get_env m s'))) s ms"

text \<open>
  The registry agrees with the actor runtime: a registered handle is the actor of that
  name, distinct names name distinct actors, and every actor was constructed. This holds
  of a server that has just started and is kept by \<open>get_env_servlet\<close> and by \<open>put_object\<close>.
\<close>

definition distinct_actors :: "server \<Rightarrow> bool" where
  "distinct_actors s =
     ((\<forall>n a. env_servlets s n = Some a \<longrightarrow> actors s n = Some a)
      \<and> (\<forall>n n' a. actors s n = Some a \<and> actors s n' = Some a \<longrightarrow> n = n')
      \<and> (\<forall>n a. actors s n = Some a \<longrightarrow> a < constructed s))"

section \<open>Routes\<close>

text \<open>
  The servlet methods the routes name (\<open>install\<close>, \<open>put_resource\<close>, \<open>run_module\<close>,
  \<open>rename_object\<close>, \<open>delete_obj\<close>, \<open>get_run_object\<close>, \<open>cancel_run\<close>, \<open>add_secrets\<close>) are looked
  up by name with \<open>getattr\<close> and belong to the servlet class, which is not among the
  sources: they are the parameter \<open>servlet\<close>, from the name and the Message to the method
  applied to it. The Message travels to the actor as an argument of a remote call, so the
  method works on a copy of it.
\<close>

type_synonym servlet = "string \<Rightarrow> message \<Rightarrow> response servlet_method"

definition install ::
  "(string \<Rightarrow> string option) \<Rightarrow> servlet \<Rightarrow> message \<Rightarrow> server \<Rightarrow>
   response servlet_result \<times> message \<times> server" where
  "install get_env servlet message s =
     (case call_in_env_servlet get_env (servlet ''install'' message) (msg_env message) True
             (msg_key message) True s of
        (r, s1) \<Rightarrow> (r, message, s1))"

definition put_resource ::
  "(string \<Rightarrow> string option) \<Rightarrow> servlet \<Rightarrow> message \<Rightarrow> server \<Rightarrow>
   response servlet_result \<times> message \<times> server" where
  "put_resource get_env servlet message s =
     (case call_in_env_servlet get_env (servlet ''put_resource'' message) (msg_env message) True
             (msg_key message) True s of
        (r, s1) \<Rightarrow> (r, message, s1))"

definition run_module ::
  "(string \<Rightarrow> string option) \<Rightarrow> servlet \<Rightarrow> message \<Rightarrow> server \<Rightarrow>
   response servlet_result \<times> message \<times> server" where
  "run_module get_env servlet message s =
     (case call_in_env_servlet get_env (servlet ''run_module'' message) (msg_env message) True
             (msg_key message) True s of
        (r, s1) \<Rightarrow> (r, message, s1))"

definition rename_object ::
  "(string \<Rightarrow> string option) \<Rightarrow> servlet \<Rightarrow> message \<Rightarrow> server \<Rightarrow>
   response servlet_result \<times> message \<times> server" where
  "rename_object get_env servlet message s =
     (case call_in_env_servlet get_env (servlet ''rename_object'' message) (msg_env message) False
             None True s of
        (r, s1) \<Rightarrow> (r, message, s1))"

definition delete_obj ::
  "(string \<Rightarrow> string option) \<Rightarrow> servlet \<Rightarrow> message \<Rightarrow> server \<Rightarrow>
   response servlet_result \<times> message \<times> server" where
  "delete_obj get_env servlet message s =
     (case call_in_env_servlet get_env (servlet ''delete_obj'' message) (msg_env message) False
             (msg_key message) True s of
        (r, s1) \<Rightarrow> (r, message, s1))"

definition get_run_object ::
  "(string \<Rightarrow> string option) \<Rightarrow> servlet \<Rightarrow> message \<Rightarrow> server \<Rightarrow>
   response servlet_result \<times> message \<times> server" where
  "get_run_object get_env servlet message s =
     (case call_in_env_servlet get_env (servlet ''get_run_object'' message) (msg_env message) False
             (msg_key message) True s of
        (r, s1) \<Rightarrow> (r, message, s1))"

definition cancel_run ::
  "(string \<Rightarrow> string option) \<Rightarrow> servlet \<Rightarrow> message \<Rightarrow> server \<Rightarrow>
   response servlet_result \<times> message \<times> server" where
  "cancel_run get_env servlet message s =
     (case call_in_env_servlet get_env (servlet ''cancel_run'' message) (msg_env message) False
             (msg_key message) True s of
        (r, s1) \<Rightarrow> (r, message, s1))"

definition add_secrets ::
  "(string \<Rightarrow> string option) \<Rightarrow> servlet \<Rightarrow> message \<Rightarrow> server \<Rightarrow>
   response servlet_result \<times> message \<times> server" where
  "add_secrets get_env servlet message s =
     (case call_in_env_servlet get_env (servlet ''add_secrets'' message) (msg_env message) True
             None True s of
        (r, s1) \<Rightarrow> (r, message, s1))"

text \<open>
  \<open>check_server\<close>: \<open>ray_status\<close> is the outcome of the body of its \<open>try\<close> (writing the
  cluster configuration when \<open>message.data\<close> is there, then \<open>ray status\<close>): the status text
  or the exception.
\<close>

definition check_server :: "(exn + string) \<Rightarrow> message \<Rightarrow> server \<Rightarrow> response \<times> message \<times> server" where
  "check_server ray_status message s =
     (case ray_status of
        Inr status \<Rightarrow>
          (\<lparr>resp_data = Some (Pickled status), resp_error = None, resp_traceback = None,
            output_type = RESULT\<rparr>, message, register_activity s)
      | Inl e \<Rightarrow> (exception_response e, message, register_activity (register_activity s)))"

text \<open>
  \<open>get_object\<close> registers activity and wraps the generator, which runs when the transport
  iterates it and only reads \<open>message.data\<close> and \<open>message.env\<close>.
\<close>

definition get_object :: "message \<Rightarrow> server \<Rightarrow> message \<times> server" where
  "get_object message s = (message, register_activity s)"

text \<open>
  \<open>Message(stream_logs=False, save=False)\<close>. The class \<open>Message\<close> belongs to \<open>http_utils\<close>,
  which is not among the sources; the remaining fields take their defaults, absent for
  the optional \<open>key\<close>, \<open>env\<close> and \<open>data\<close> and false for \<open>remote\<close>.
\<close>

definition default_message :: message where
  "default_message =
     \<lparr>msg_key = None, msg_env = None, msg_data = None, stream_logs = False, save = False,
      remote = False\<rparr>"

text \<open>
  What \<open>call_module_method\<close> returns: the Response with the key (\<open>remote\<close>), the
  \<open>StreamingResponse\<close> around \<open>_get_results_and_logs_generator(key, env, stream_logs)\<close>,
  given by these three arguments, or the Response of its handler.
\<close>

datatype call_reply =
    Key_reply response
  | Stream_reply string "string option" bool
  | Error_reply response

text \<open>
  \<open>call_module_method(module, method, message)\<close>. \<open>_generate_default_name\<close> belongs to
  \<open>runhouse.rns.utils.names\<close>, which is not among the sources: it is the parameter
  \<open>generate_default_name\<close>, from the prefix to the name (it reads the clock);
  \<open>default_prefix\<close> is the prefix handed to it, \<open>module if method == "__call__" or not method
  else f"{module}_{method}"\<close>. The
  assignment \<open>message.key = message.key or ...\<close> changes the Message in place.
\<close>

definition default_prefix :: "string \<Rightarrow> string option \<Rightarrow> string" where
  "default_prefix module method =
     (case method of
        None \<Rightarrow> module
      | Some m \<Rightarrow> if m = ''__call__'' \<or> m = [] then module else module @ ''_'' @ m)"

definition call_module_method ::
  "(string \<Rightarrow> string) \<Rightarrow> (string \<Rightarrow> string option) \<Rightarrow> string \<Rightarrow> string option \<Rightarrow>
   message option \<Rightarrow> server \<Rightarrow> call_reply \<times> message \<times> server" where
  "call_module_method generate_default_name get_env module method message s =
     (let s0 = register_activity s;
          method1 = (if method = Some ''None'' then None else method);
          message1 = (case message of None \<Rightarrow> default_message | Some m \<Rightarrow> m);
          message2 = message1\<lparr>msg_key :=
                       py_or (msg_key message1)
                         (Some (generate_default_name (default_prefix module method1)))\<rparr>;
          env = py_or (msg_env message2) (lookup_env_for_name get_env module)
      in case call_in_env_servlet get_env submitted env True None False s0 of
           (obj_ref, s1) \<Rightarrow>
             (case msg_key message2 of
                None \<Rightarrow>
                  (Error_reply (exception_response (OtherError ''TypeError'')), message2,
                   register_activity s1)
              | Some key \<Rightarrow>
                  (let s2 = s1\<lparr>refs := (refs s1)(key @ ''_ref'' \<mapsto> obj_ref)\<rparr>
                   in if remote message2
                      then (Key_reply \<lparr>resp_data = Some (Pickled key), resp_error = None,
                                       resp_traceback = None, output_type = RESULT\<rparr>,
                            message2, s2)
                      else (Stream_reply key env (stream_logs message2), message2, s2))))"

text \<open>
  A request that carries a Message, and the Message once the route has served it.
\<close>

datatype request =
    Check_server "exn + string"
  | Install | Put_resource | Run_module | Get_object | Put_object | Rename_object
  | Delete_obj | Get_run_object | Cancel_run | Add_secrets
  | Call_module_method string "string option"

fun serve ::
  "(string \<Rightarrow> string) \<Rightarrow> (string \<Rightarrow> string option) \<Rightarrow> servlet \<Rightarrow> request \<Rightarrow> message \<Rightarrow> server \<Rightarrow>
   message \<times> server" where
  "serve gen get_env servlet (Check_server st) m s = snd (check_server st m s)"
| "serve gen get_env servlet Install m s = snd (install get_env servlet m s)"
| "serve gen get_env servlet Put_resource m s = snd (put_resource get_env servlet m s)"
| "serve gen get_env servlet Run_module m s = snd (run_module get_env servlet m s)"
| "serve gen get_env servlet Get_object m s = get_object m s"
| "serve gen get_env servlet Put_object m s = snd (put_object get_env m s)"
| "serve gen get_env servlet Rename_object m s = snd (rename_object get_env servlet m s)"
| "serve gen get_env servlet Delete_obj m s = snd (delete_obj get_env servlet m s)"
| "serve gen get_env servlet Get_run_object m s = snd (get_run_object get_env servlet m s)"
| "serve gen get_env servlet Cancel_run m s = snd (cancel_run get_env servlet m s)"
| "serve gen get_env servlet Add_secrets m s = snd (add_secrets get_env servlet m s)"
| "serve gen get_env servlet (Call_module_method module method) m s =
     snd (call_module_method gen get_env module method (Some m) s)"

section \<open>Concurrent calls of \<open>get_env_servlet\<close>\<close>

text \<open>
  The routes run in a pool of threads, so calls of \<open>get_env_servlet\<close> interleave. A call
  is three atomic steps: the membership test on \<open>env_servlets\<close>, the request to the actor
  runtime, and the assignment to \<open>env_servlets\<close>. A thread is at one of these steps, or
  done with a handle, or done with an exception.
\<close>

datatype pc = At_check | At_create | At_register actor | Returned actor | Raising exn

definition thread_step :: "string \<Rightarrow> bool \<Rightarrow> pc \<Rightarrow> server \<Rightarrow> pc \<times> server" where
  "thread_step env_name create p s =
     (case p of
        At_check \<Rightarrow>
          (case env_servlets s env_name of
             Some a \<Rightarrow> (Returned a, s)
           | None \<Rightarrow> if create then (At_create, s) else (Raising (EnvDoesNotExist env_name), s))
      | At_create \<Rightarrow>
          (case ray_get_or_create env_name s of (new_env, s1) \<Rightarrow> (At_register new_env, s1))
      | At_register new_env \<Rightarrow>
          (Returned new_env, s\<lparr>env_servlets := (env_servlets s)(env_name \<mapsto> new_env)\<rparr>)
      | Returned a \<Rightarrow> (Returned a, s)
      | Raising e \<Rightarrow> (Raising e, s))"

text \<open>
  Any number of threads call \<open>get_env_servlet(env_name, create=True)\<close>; a schedule names,
  step by step, the thread that moves (a number that names no thread moves nothing).
\<close>

fun run_threads :: "string \<Rightarrow> nat list \<Rightarrow> pc list \<Rightarrow> server \<Rightarrow> pc list \<times> server" where
  "run_threads env_name [] ps s = (ps, s)"
| "run_threads env_name (i # schedule) ps s =
     (if i < length ps
      then (case thread_step env_name True (ps ! i) s of
              (p, s1) \<Rightarrow> run_threads env_name schedule (ps[i := p]) s1)
      else run_threads env_name schedule ps s)"

text \<open>
  The steps a thread has left at most; what holds of a thread at each step, with respect
  to the state \<open>s0\<close> the calls started from; and the invariant of the interleaved calls.
\<close>

fun steps_left :: "pc \<Rightarrow> nat" where
  "steps_left At_check = 3"
| "steps_left At_create = 2"
| "steps_left (At_register a) = 1"
| "steps_left (Returned a) = 0"
| "steps_left (Raising e) = 0"

definition thread_ok :: "string \<Rightarrow> server \<Rightarrow> server \<Rightarrow> pc \<Rightarrow> bool" where
  "thread_ok n s0 s p =
     (case p of
        At_check \<Rightarrow> True
      | At_create \<Rightarrow> env_servlets s0 n = None
      | At_register a \<Rightarrow> env_servlets s0 n = None \<and> actors s n = Some a
      | Returned a \<Rightarrow> env_servlets s n = Some a
      | Raising e \<Rightarrow> False)"

definition threads_inv :: "string \<Rightarrow> server \<Rightarrow> pc list \<Rightarrow> server \<Rightarrow> bool" where
  "threads_inv n s0 ps s =
     (list_all (thread_ok n s0 s) ps
      \<and> (env_servlets s0 n = None \<longrightarrow> (\<forall>a. env_servlets s n = Some a \<longrightarrow> actors s n = Some a))
      \<and> (env_servlets s0 n \<noteq> None \<longrightarrow> env_servlets s n = env_servlets s0 n)
      \<and> (actors s0 n \<noteq> None \<longrightarrow> actors s n = actors s0 n)
      \<and> constructed s = constructed s0 + (if actors s0 n = None \<and> actors s n \<noteq> None then 1 else 0))"

section \<open>Access control\<close>

text \<open>
  Modelled from the spec: the Access Control Gate. Its code (\<open>runhouse/servers/http/auth.py\<close>,
  named by the tests) is not among the sources. The spec: access levels \<open>none\<close>, \<open>read\<close>,
  \<open>write\<close>; a Permission Cache from (credential, resource) to the level, filled on a
  miss from an external authority and kept; \<open>authorize(credential, resource_id,
  required_level)\<close> grants when the level reaches the required one; and the special rule
  for invoking: \<open>write\<close> on the Environment is enough, otherwise explicit access to the
  target resource is required (the tests' message names it: "No read or write access to
  requested resource").
\<close>

datatype access = No_access | Read_access | Write_access

fun rank :: "access \<Rightarrow> nat" where
  "rank No_access = 0"
| "rank Read_access = 1"
| "rank Write_access = 2"

type_synonym permission_cache = "string \<times> string \<rightharpoonup> access"

definition permission ::
  "(string \<Rightarrow> string \<Rightarrow> access) \<Rightarrow> permission_cache \<Rightarrow> string \<Rightarrow> string \<Rightarrow> access \<times> permission_cache" where
  "permission authority cache credential resource_id =
     (case cache (credential, resource_id) of
        Some level \<Rightarrow> (level, cache)
      | None \<Rightarrow>
          (authority credential resource_id,
           cache((credential, resource_id) \<mapsto> authority credential resource_id)))"

definition authorize ::
  "(string \<Rightarrow> string \<Rightarrow> access) \<Rightarrow> permission_cache \<Rightarrow> string \<Rightarrow> string \<Rightarrow> access \<Rightarrow>
   bool \<times> permission_cache" where
  "authorize authority cache credential resource_id required_level =
     (case permission authority cache credential resource_id of
        (level, cache1) \<Rightarrow> (rank required_level \<le> rank level, cache1))"

definition authorize_invoke ::
  "(string \<Rightarrow> string \<Rightarrow> access) \<Rightarrow> permission_cache \<Rightarrow> string \<Rightarrow> string \<Rightarrow> string \<Rightarrow>
   bool \<times> permission_cache" where
  "authorize_invoke authority cache credential environment resource_id =
     (case authorize authority cache credential environment Write_access of
        (True, cache1) \<Rightarrow> (True, cache1)
      | (False, cache1) \<Rightarrow> authorize authority cache1 credential resource_id Read_access)"

section \<open>Shapes of a response stream\<close>

definition is_terminal :: "response \<Rightarrow> bool" where
  "is_terminal r = (output_type r = RESULT \<or> output_type r = EXCEPTION)"

definition is_nonterminal :: "response \<Rightarrow> bool" where
  "is_nonterminal r = (output_type r = RESULT_STREAM \<or> output_type r = STDOUT)"

text \<open>The Response a pass relays from the result source, if it relays one.\<close>

definition relayed :: "tick \<Rightarrow> response option" where
  "relayed t = (case ray_get t of Inr (Some r) \<Rightarrow> Some r | _ \<Rightarrow> None)"

text \<open>The result source hands out no Response of type \<open>STDOUT\<close>.\<close>

definition relays_no_stdout :: "tick list \<Rightarrow> bool" where
  "relays_no_stdout ticks =
     list_all (\<lambda>t. case relayed t of Some r \<Rightarrow> output_type r \<noteq> STDOUT | None \<Rightarrow> True) ticks"

definition tick_files :: "'a log_tick_scheme \<Rightarrow> string list" where
  "tick_files t = (case logfiles t of None \<Rightarrow> [] | Some fs \<Rightarrow> fs)"

definition all_logfiles :: "'a log_tick_scheme list \<Rightarrow> string list" where
  "all_logfiles ticks = concat (map tick_files ticks)"

text \<open>In this pass, each of the files \<open>fs\<close> opens and reads without an error.\<close>

definition reads_ok :: "string list \<Rightarrow> 'a log_tick_scheme \<Rightarrow> bool" where
  "reads_ok fs t =
     list_all (\<lambda>f. open_error t f = None \<and> (case readlines t f of Inl m \<Rightarrow> False | Inr ls \<Rightarrow> True)) fs"

text \<open>
  A pass that relays a Response that ends the loop (one not of type \<open>RESULT_STREAM\<close>)
  reads its log files without an error.
\<close>

definition final_ok :: "string list \<Rightarrow> tick \<Rightarrow> bool" where
  "final_ok fs t =
     (case relayed t of
        Some r \<Rightarrow> output_type r = RESULT_STREAM \<or> reads_ok fs t
      | None \<Rightarrow> True)"

definition final_flush_ok :: "tick list \<Rightarrow> bool" where
  "final_flush_ok ticks = list_all (final_ok (all_logfiles ticks)) ticks"

text \<open>
  A pass on which the loop ends whatever came before: \<open>ray.get\<close> raises something other
  than the timeout, or hands out a Response not of type \<open>RESULT_STREAM\<close>.
\<close>

definition closing :: "tick \<Rightarrow> bool" where
  "closing t =
     (case ray_get t of
        Inl e \<Rightarrow> e \<noteq> GetTimeoutError
      | Inr None \<Rightarrow> False
      | Inr (Some r) \<Rightarrow> output_type r \<noteq> RESULT_STREAM)"

text \<open>
  A stream that ends well: Responses of type \<open>RESULT_STREAM\<close> or \<open>STDOUT\<close>, then one
  terminal Response, then nothing or one batch of log lines.
\<close>

definition ends_well :: "response list \<Rightarrow> bool" where
  "ends_well ys =
     (\<exists>pre t post. ys = pre @ [t] @ post \<and> list_all is_nonterminal pre \<and> is_terminal t
        \<and> (post = [] \<or> (\<exists>ls. post = [stdout_response ls])))"

text \<open>
  The loop holds no reference (it will submit the poll anew) or the reference of a
  submitted poll.
\<close>

definition valid_ref :: "unit servlet_result option \<Rightarrow> bool" where
  "valid_ref r = (case r of None \<Rightarrow> True | Some (ObjectRef a) \<Rightarrow> True | Some x \<Rightarrow> False)"

text \<open>A stream without its Responses of type \<open>STDOUT\<close>.\<close>

definition no_log_batches :: "response list \<Rightarrow> response list" where
  "no_log_batches ys = filter (\<lambda>r. output_type r \<noteq> STDOUT) ys"

text \<open>In every pass, every log file the passes name opens and reads without an error.\<close>

definition logs_ok :: "tick list \<Rightarrow> bool" where
  "logs_ok ticks = list_all (reads_ok (all_logfiles ticks)) ticks"

text \<open>The poll of a pass returns or times out: it raises nothing else.\<close>

definition no_poll_error :: "tick \<Rightarrow> bool" where
  "no_poll_error t = (case ray_get t of Inl e \<Rightarrow> e = GetTimeoutError | Inr v \<Rightarrow> True)"

definition stream_response :: "string \<Rightarrow> response" where
  "stream_response v =
     \<lparr>resp_data = Some (Pickled v), resp_error = None, resp_traceback = None,
      output_type = RESULT_STREAM\<rparr>"

text \<open>
  Modelled from the spec: what the result source of a call hands out, poll by poll, when
  the callable returned a lazy sequence. The servlet method \<open>_get_result_from_stream\<close> is
  not among the sources. The spec: the sequence is exposed as discrete \<open>RESULT_STREAM\<close>
  chunks, one per produced element, terminated by a final \<open>RESULT\<close>.
\<close>

definition sequence_responses :: "string list \<Rightarrow> string option \<Rightarrow> response list" where
  "sequence_responses elements final = map stream_response elements @ [result_response final]"

text \<open>
  Where a yielded Response comes from: it is one the result source handed out, or a batch
  of log lines, or the \<open>EXCEPTION\<close> Response of an exception that is not the timeout.
\<close>

definition origin_ok :: "response list \<Rightarrow> response \<Rightarrow> bool" where
  "origin_ok relays r =
     (r \<in> set relays \<or> (\<exists>ls. r = stdout_response ls)
      \<or> (\<exists>e. e \<noteq> GetTimeoutError \<and> r = exception_response e))"

definition not_stdout :: "response \<Rightarrow> bool" where
  "not_stdout r = (output_type r \<noteq> STDOUT)"

fun pass_yielded :: "pass \<Rightarrow> response list" where
  "pass_yielded (Stop ys fs s) = ys"
| "pass_yielded (Again ys r fs s) = ys"

fun pass_files :: "pass \<Rightarrow> string list" where
  "pass_files (Stop ys fs s) = fs"
| "pass_files (Again ys r fs s) = fs"

section \<open>Example inputs\<close>

definition running_server :: server where
  "running_server = HTTPServer_init fresh_server"

text \<open>A pass in which the key has no log directory, and one in which its log file has new lines.\<close>

definition quiet_tick :: "exn + response option \<Rightarrow> tick" where
  "quiet_tick p =
     \<lparr>logfiles = None, open_error = (\<lambda>_. None), readlines = (\<lambda>_. Inr []), ray_get = p\<rparr>"

definition logging_tick :: "exn + response option \<Rightarrow> string list \<Rightarrow> tick" where
  "logging_tick p new_lines =
     \<lparr>logfiles = Some [''.rh/logs/summer/summer.out''], open_error = (\<lambda>_. None),
      readlines = (\<lambda>_. Inr new_lines), ray_get = p\<rparr>"

definition example_ticks :: "tick list" where
  "example_ticks =
     [quiet_tick (Inl GetTimeoutError),
      logging_tick (Inr (Some (stream_response ''5''))) [''Hello from the cluster! 0''],
      logging_tick (Inr None) [],
      logging_tick (Inr (Some (result_response (Some ''13'')))) [''Hello from the cluster! 1'']]"

definition example_name :: "string \<Rightarrow> string" where
  "example_name prefix = prefix @ ''_20231104_120000_000''"

definition summer_message :: message where
  "summer_message =
     \<lparr>msg_key = Some ''summer_call'', msg_env = None, msg_data = Some ''(5, 8)'',
      stream_logs = True, save = False, remote = False\<rparr>"

definition failing_ticks :: "tick list" where
  "failing_ticks =
     [quiet_tick (Inl GetTimeoutError),
      logging_tick (Inr (Some (stream_response ''5''))) [''Hello from the cluster! 0'']]"

definition iterator_ticks :: "tick list" where
  "iterator_ticks =
     [logging_tick (Inr (Some (stream_response ''name''))) [''Hello from the cluster! 0''],
      quiet_tick (Inl GetTimeoutError),
      quiet_tick (Inr None),
      logging_tick (Inr (Some (stream_response ''version''))) [],
      logging_tick (Inr (Some (result_response None))) [''Hello from the cluster! 1'']]"

text \<open>
  A decoding of the payload of an object fetch for the examples: the key, and \<open>+logs\<close> when
  the client asked for the logs.
\<close>

definition example_unpickle :: "string option \<Rightarrow> exn + string \<times> bool" where
  "example_unpickle d =
     (if d = Some ''my_list+logs'' then Inr (''my_list'', True)
      else if d = Some ''my_list'' then Inr (''my_list'', False)
      else Inl (OtherError ''unpickle''))"

definition list_message :: message where
  "list_message =
     \<lparr>msg_key = Some ''my_list'', msg_env = None, msg_data = Some ''[5, 7, 9]'',
      stream_logs = True, save = False, remote = False\<rparr>"

definition stored_server :: server where
  "stored_server = snd (snd (put_object (\<lambda>_. None) list_message running_server))"

definition fetch_message :: message where
  "fetch_message =
     \<lparr>msg_key = None, msg_env = None, msg_data = Some ''my_list+logs'',
      stream_logs = False, save = False, remote = False\<rparr>"

definition fetch_logging_tick :: "string list \<Rightarrow> fetch_tick" where
  "fetch_logging_tick new_lines =
     \<lparr>logfiles = Some [''.rh/logs/my_list/my_list.out''], open_error = (\<lambda>_. None),
      readlines = (\<lambda>_. Inr new_lines), others = (\<lambda>s. s)\<rparr>"

definition example_servlet :: servlet where
  "example_servlet name m a s = (Inr (result_response (msg_data m)), s)"

definition example_authority :: "string \<Rightarrow> string \<Rightarrow> access" where
  "example_authority credential resource_id =
     (if credential = ''writer'' \<and> resource_id = ''cluster'' then Write_access
      else if credential = ''reader'' \<and> resource_id = ''cluster'' then Read_access
      else No_access)"

text \<open>
  A server process that has just restarted on a runtime where the detached actor \<open>base\<close>
  of the last process still lives.
\<close>

definition restarted_server :: server where
  "restarted_server = fresh_server\<lparr>actors := [''base'' \<mapsto> 0], constructed := 1\<rparr>"

text \<open>A pass in which the log file of the key is there but reading it fails.\<close>

definition unreadable_tick :: "exn + response option \<Rightarrow> tick" where
  "unreadable_tick p =
     \<lparr>logfiles = Some [''.rh/logs/summer/summer.out''], open_error = (\<lambda>_. None),
      readlines = (\<lambda>_. Inl ''Input/output error''), ray_get = p\<rparr>"

definition broken_ticks :: "tick list" where
  "broken_ticks =
     [unreadable_tick (Inr (Some (stream_response ''name''))),
      logging_tick (Inr (Some (stream_response ''version''))) [],
      logging_tick (Inr (Some (result_response None))) []]"

definition fetch_unreadable_tick :: fetch_tick where
  "fetch_unreadable_tick =
     \<lparr>logfiles = Some [''.rh/logs/my_list/my_list.out''], open_error = (\<lambda>_. None),
      readlines = (\<lambda>_. Inl ''Input/output error''), others = (\<lambda>s. s)\<rparr>"

section \<open>Properties\<close>

subsection \<open>Unregistered names\<close>

lemma get_env_servlet_unregistered:
  "env_servlets s n = None \<Longrightarrow> get_env_servlet n False s = (Inl (EnvDoesNotExist n), s)"
  by (simp add: get_env_servlet_def)

text \<open>
  Claim C7. When the name \<open>n\<close> is not registered, \<open>get_env_servlet\<close> without \<open>create\<close>
  raises the "does not exist" exception for \<open>n\<close> and leaves the state as it was, and an
  operation dispatched without \<open>create\<close> whose target resolves to \<open>n\<close> comes back as the
  \<open>EXCEPTION\<close> Response carrying that exception; the registry, the actor table and the
  number of constructed actors are what they were, so no Environment was created.
\<close>

theorem unregistered_env_not_found:
  assumes "env_servlets s n = None"
  shows "get_env_servlet n False s = (Inl (EnvDoesNotExist n), s)
       \<and> (target_env get_env env lookup_name = n \<longrightarrow>
            call_in_env_servlet get_env method env False lookup_name block s
              = (Failure (exception_response (EnvDoesNotExist n)),
                 s\<lparr>activity := activity s + 2\<rparr>))"
proof -
  have a: "get_env_servlet n False s = (Inl (EnvDoesNotExist n), s)"
    using assms by (rule get_env_servlet_unregistered)
  have b: "get_env_servlet n False (register_activity s)
             = (Inl (EnvDoesNotExist n), register_activity s)"
    using assms by (simp add: get_env_servlet_unregistered register_activity_def)
  have c: "target_env get_env env lookup_name = n \<Longrightarrow>
         call_in_env_servlet get_env method env False lookup_name block s
           = (Failure (exception_response (EnvDoesNotExist n)),
              s\<lparr>activity := activity s + 2\<rparr>)"
    using b by (simp add: call_in_env_servlet_def register_activity_def)
  from a c show ?thesis by blast
qed

theorem unregistered_env_not_found_witness:
  "env_servlets (HTTPServer_init fresh_server) ''pytorch'' = None
   \<and> get_env_servlet ''pytorch'' False (HTTPServer_init fresh_server)
       = (Inl (EnvDoesNotExist ''pytorch''), HTTPServer_init fresh_server)
   \<and> target_env (\<lambda>_. None) (Some ''pytorch'') (Some ''my_key'') = ''pytorch''
   \<and> fst (call_in_env_servlet (\<lambda>_. None) submitted (Some ''pytorch'') False (Some ''my_key'') True
            (HTTPServer_init fresh_server))
       = Failure (exception_response (EnvDoesNotExist ''pytorch''))"
proof -
  have h: "env_servlets (HTTPServer_init fresh_server) ''pytorch'' = None"
    by (simp add: HTTPServer_init_def fresh_server_def get_env_servlet_def
        ray_get_or_create_def register_activity_def)
  have t: "target_env (\<lambda>_. None) (Some ''pytorch'') (Some ''my_key'') = ''pytorch''"
    by (simp add: target_env_def or_base_def py_or_def)
  from unregistered_env_not_found [OF h, of "\<lambda>_. None" "Some ''pytorch''" "Some ''my_key''"
      submitted True] h t
  show ?thesis by simp
qed

subsection \<open>The stream of a call\<close>

lemma open_each_files:
  "set open_files \<subseteq> F \<Longrightarrow> set fs \<subseteq> F \<Longrightarrow> set (snd (open_each err fs open_files)) \<subseteq> F"
  by (induction fs arbitrary: open_files) (auto split: option.splits)

lemma open_each_ok:
  "\<forall>f\<in>set fs. err f = None \<Longrightarrow> fst (open_each err fs open_files) = None"
  by (induction fs arbitrary: open_files) (auto split: option.splits)

lemma read_all_ok:
  "\<forall>f\<in>set fs. (case rd f of Inl m \<Rightarrow> False | Inr ls \<Rightarrow> True) \<Longrightarrow> \<exists>ls. read_all rd fs = Inr ls"
  by (induction fs) (auto split: sum.splits)

lemma flush_logs_files:
  "set open_files \<subseteq> F \<Longrightarrow> set (tick_files t) \<subseteq> F \<Longrightarrow> set (snd (flush_logs sl t open_files)) \<subseteq> F"
  using open_each_files [of open_files F "tick_files t" "open_error t"]
  by (auto simp: flush_logs_def open_new_logfiles_def tick_files_def
      split: option.splits prod.splits)

lemma flush_logs_ok:
  assumes "reads_ok F t" "set open_files \<subseteq> set F" "set (tick_files t) \<subseteq> set F"
  shows "\<exists>ls. fst (flush_logs sl t open_files) = Inr ls"
proof (cases sl)
  case False
  then show ?thesis by (simp add: flush_logs_def)
next
  case True
  have ok: "\<forall>f\<in>set F. open_error t f = None \<and> (case readlines t f of Inl m \<Rightarrow> False | Inr ls \<Rightarrow> True)"
    using assms(1) by (simp add: reads_ok_def list_all_iff)
  obtain e fs where o: "open_new_logfiles t open_files = (e, fs)"
    by (cases "open_new_logfiles t open_files")
  have "e = None"
    using o open_each_ok [of "tick_files t" "open_error t" open_files] ok assms(3)
    by (auto simp: open_new_logfiles_def tick_files_def split: option.splits)
  moreover have "set fs \<subseteq> set F"
    using o open_each_files [of open_files "set F" "tick_files t" "open_error t"] assms(2,3)
    by (auto simp: open_new_logfiles_def tick_files_def split: option.splits)
  then have "\<exists>ls. read_all (readlines t) fs = Inr ls"
    using ok by (intro read_all_ok) auto
  ultimately show ?thesis using True o by (auto simp: flush_logs_def)
qed


lemma is_terminal_exception [simp]: "is_terminal (exception_response e)"
  by (simp add: is_terminal_def exception_response_def)

lemma is_nonterminal_stdout [simp]: "is_nonterminal (stdout_response ls)"
  by (simp add: is_nonterminal_def stdout_response_def)

lemma terminal_or_not: "is_terminal r \<longleftrightarrow> \<not> is_nonterminal r"
  by (cases "output_type r") (simp_all add: is_terminal_def is_nonterminal_def)

lemma ends_well_single: "is_terminal t \<Longrightarrow> ends_well [t]"
  unfolding ends_well_def by (rule exI [of _ "[]"], rule exI [of _ t], rule exI [of _ "[]"]) simp

lemma ends_well_stdout: "is_terminal t \<Longrightarrow> ends_well [t, stdout_response ls]"
  unfolding ends_well_def
  by (rule exI [of _ "[]"], rule exI [of _ t], rule exI [of _ "[stdout_response ls]"]) auto

lemma ends_well_pre:
  assumes "list_all is_nonterminal pre" "ends_well ys"
  shows "ends_well (pre @ ys)"
proof -
  from assms(2) obtain p t post where
    ys: "ys = p @ [t] @ post" and p: "list_all is_nonterminal p" and t: "is_terminal t"
    and post: "post = [] \<or> (\<exists>ls. post = [stdout_response ls])"
    unfolding ends_well_def by blast
  have "pre @ ys = (pre @ p) @ [t] @ post" using ys by simp
  moreover have "list_all is_nonterminal (pre @ p)" using assms(1) p by simp
  ultimately show ?thesis unfolding ends_well_def using t post by blast
qed

lemma after_poll_files:
  "set open_files \<subseteq> F \<Longrightarrow> set (tick_files t) \<subseteq> F \<Longrightarrow>
   set (pass_files (after_poll sl t open_files s ys r w)) \<subseteq> F"
  using flush_logs_files [of open_files F t sl]
  by (auto simp: after_poll_def Let_def split: prod.splits sum.splits)

lemma loop_pass_files:
  "set open_files \<subseteq> F \<Longrightarrow> set (tick_files t) \<subseteq> F \<Longrightarrow>
   set (pass_files (loop_pass g env sl r open_files t s)) \<subseteq> F"
  by (auto simp: loop_pass_def Let_def after_poll_files split: prod.splits sum.splits option.splits
      dest: subsetD [OF after_poll_files])

lemma after_poll_again:
  "after_poll sl t open_files s ys r w = Again zs r' fs s1 \<Longrightarrow> list_all is_nonterminal ys \<Longrightarrow>
   list_all is_nonterminal zs"
  by (auto simp: after_poll_def Let_def split: prod.splits sum.splits if_splits)

lemma after_poll_waiting:
  "after_poll sl t open_files s ys r w = Again zs r' fs s1 \<Longrightarrow> w"
  by (auto simp: after_poll_def Let_def split: prod.splits sum.splits if_splits)

lemma loop_pass_cases:
  assumes "issue g env r s = (ref, s0)"
  shows "loop_pass g env sl r open_files t s =
     (case ray_get_on ref t of
        Inl e \<Rightarrow> if e = GetTimeoutError then after_poll sl t open_files s0 [] (Some ref) True
                 else Stop [exception_response e] open_files s0
      | Inr None \<Rightarrow> after_poll sl t open_files s0 [] None True
      | Inr (Some ret_val) \<Rightarrow>
          after_poll sl t open_files s0 [ret_val] None (output_type ret_val = RESULT_STREAM))"
  using assms by (simp add: loop_pass_def)

lemma loop_pass_again:
  assumes "loop_pass g env sl r open_files t s = Again zs r' fs s1"
  shows "list_all is_nonterminal zs"
proof -
  obtain ref s0 where i: "issue g env r s = (ref, s0)" by (cases "issue g env r s")
  note lp = assms [unfolded loop_pass_cases [OF i]]
  show ?thesis
  proof (cases "ray_get_on ref t")
    case (Inl e)
    with lp show ?thesis by (auto split: if_splits dest: after_poll_again)
  next
    case (Inr v)
    show ?thesis
    proof (cases v)
      case None
      with Inr lp show ?thesis by (auto dest: after_poll_again)
    next
      case (Some ret_val)
      with Inr lp have a: "after_poll sl t open_files s0 [ret_val] None
          (output_type ret_val = RESULT_STREAM) = Again zs r' fs s1" by simp
      from after_poll_waiting [OF a] have "list_all is_nonterminal [ret_val]"
        by (simp add: is_nonterminal_def)
      with a show ?thesis by (rule after_poll_again)
    qed
  qed
qed

lemma after_poll_stop_terminal:
  assumes "after_poll sl t open_files s [r] ref False = Stop ys fs s1"
    and "is_terminal r" and "\<exists>ls. fst (flush_logs sl t open_files) = Inr ls"
  shows "ends_well ys"
  using assms
  by (auto simp: after_poll_def Let_def ends_well_single ends_well_stdout
      split: prod.splits sum.splits if_splits)

lemma after_poll_stop_waiting:
  assumes "after_poll sl t open_files s ys ref True = Stop zs fs s1"
    and "list_all is_nonterminal ys"
  shows "ends_well zs"
  using assms
  by (auto simp: after_poll_def Let_def
      split: prod.splits sum.splits if_splits intro!: ends_well_pre ends_well_single)

lemma loop_pass_stop:
  assumes "loop_pass g env sl r open_files t s = Stop ys fs s1"
    and ns: "case relayed t of Some r \<Rightarrow> output_type r \<noteq> STDOUT | None \<Rightarrow> True"
    and ok: "final_ok F t" and sub: "set open_files \<subseteq> set F" "set (tick_files t) \<subseteq> set F"
  shows "ends_well ys"
proof -
  obtain ref s0 where i: "issue g env r s = (ref, s0)" by (cases "issue g env r s")
  note lp = assms(1) [unfolded loop_pass_cases [OF i]]
  show ?thesis
  proof (cases "ray_get_on ref t")
    case (Inl e)
    with lp show ?thesis
      by (auto split: if_splits intro: ends_well_single dest: after_poll_stop_waiting)
  next
    case (Inr v)
    show ?thesis
    proof (cases v)
      case None
      with Inr lp show ?thesis by (auto dest: after_poll_stop_waiting)
    next
      case (Some ret_val)
      from Inr Some have rel: "relayed t = Some ret_val"
        by (cases ref) (simp_all add: relayed_def)
      show ?thesis
      proof (cases "output_type ret_val = RESULT_STREAM")
        case True
        with Inr Some lp show ?thesis
          by (auto simp: is_nonterminal_def dest!: after_poll_stop_waiting)
      next
        case False
        with rel ns have "is_terminal ret_val"
          by (cases "output_type ret_val") (simp_all add: is_terminal_def)
        moreover from rel ok False have "reads_ok F t" by (simp add: final_ok_def)
        then have "\<exists>ls. fst (flush_logs sl t open_files) = Inr ls"
          using sub by (rule flush_logs_ok)
        moreover from Inr Some lp False
        have "after_poll sl t open_files s0 [ret_val] None False = Stop ys fs s1" by simp
        ultimately show ?thesis by (rule after_poll_stop_terminal [rotated])
      qed
    qed
  qed
qed

lemma pass_files_simps:
  "p = Stop ys fs s \<Longrightarrow> pass_files p = fs" "p = Again ys r fs s \<Longrightarrow> pass_files p = fs"
  by simp_all

lemma results_loop_structure:
  assumes "results_loop g env sl r open_files ticks s = (ys, Closed, fs, s')"
    and "list_all (\<lambda>t. case relayed t of Some r \<Rightarrow> output_type r \<noteq> STDOUT | None \<Rightarrow> True) ticks"
    and "list_all (final_ok F) ticks"
    and "set open_files \<subseteq> set F" "\<forall>t\<in>set ticks. set (tick_files t) \<subseteq> set F"
  shows "ends_well ys"
  using assms
proof (induction ticks arbitrary: r open_files s ys)
  case Nil
  then show ?case by simp
next
  case (Cons t ticks)
  have tf: "set (tick_files t) \<subseteq> set F" using Cons.prems(5) by simp
  show ?case
  proof (cases "loop_pass g env sl r open_files t s")
    case (Stop zs fs1 s1)
    with Cons.prems(1) have "ys = zs" by simp
    with loop_pass_stop [OF Stop _ _ Cons.prems(4) tf] Cons.prems(2,3) show ?thesis by simp
  next
    case (Again zs ref fs1 s1)
    obtain ws en fs2 s2 where rec: "results_loop g env sl ref fs1 ticks s1 = (ws, en, fs2, s2)"
      by (cases "results_loop g env sl ref fs1 ticks s1")
    with Again Cons.prems(1) have ys: "ys = zs @ ws" and en: "en = Closed" and "fs2 = fs" "s2 = s'"
      by simp_all
    have "set fs1 \<subseteq> set F"
      using loop_pass_files [OF Cons.prems(4) tf, of g env sl r s] Again by simp
    with Cons.IH [of ref fs1 s1 ws] rec en \<open>fs2 = fs\<close> \<open>s2 = s'\<close> Cons.prems(2,3,5)
    have "ends_well ws" by simp
    with loop_pass_again [OF Again] ys show ?thesis by (simp add: ends_well_pre)
  qed
qed


lemma ends_well_count: "ends_well ys \<Longrightarrow> length (filter is_terminal ys) = 1"
  unfolding ends_well_def
  by (auto simp: terminal_or_not list_all_iff filter_empty_conv)

lemma after_poll_not_waiting:
  "\<exists>zs fs s1. after_poll sl t open_files s ys r False = Stop zs fs s1"
  by (auto simp: after_poll_def Let_def split: prod.splits sum.splits)

lemma closing_stops:
  assumes "closing t"
  shows "\<exists>ys fs s1. loop_pass g env sl r open_files t s = Stop ys fs s1"
proof -
  obtain ref s0 where i: "issue g env r s = (ref, s0)" by (cases "issue g env r s")
  show ?thesis
  proof (cases ref)
    case (ObjectRef a)
    with assms show ?thesis
      unfolding loop_pass_cases [OF i] using after_poll_not_waiting
      by (auto simp: closing_def split: sum.splits option.splits)
  qed (simp_all add: loop_pass_cases [OF i])
qed

lemma results_loop_closes:
  "list_ex closing ticks \<Longrightarrow> fst (snd (results_loop g env sl r open_files ticks s)) = Closed"
proof (induction ticks arbitrary: r open_files s)
  case Nil
  then show ?case by simp
next
  case (Cons t ticks)
  show ?case
  proof (cases "loop_pass g env sl r open_files t s")
    case (Stop ys fs s1)
    then show ?thesis by simp
  next
    case (Again ys ref fs s1)
    with closing_stops [of t g env sl r open_files s] have "\<not> closing t" by auto
    with Cons.prems have "list_ex closing ticks" by simp
    from Cons.IH [OF this, of ref fs s1] Again show ?thesis
      by (auto split: prod.splits)
  qed
qed

lemma results_loop_never_raises:
  "fst (snd (results_loop g env sl r open_files ticks s)) \<noteq> Raised e"
proof (induction ticks arbitrary: r open_files s)
  case Nil
  then show ?case by simp
next
  case (Cons t ticks)
  show ?case
  proof (cases "loop_pass g env sl r open_files t s")
    case (Stop ys fs s1)
    then show ?thesis by simp
  next
    case (Again ys ref fs s1)
    with Cons.IH [of ref fs s1] show ?thesis by (auto split: prod.splits)
  qed
qed

lemma all_logfiles_covers: "\<forall>t\<in>set ticks. set (tick_files t) \<subseteq> set (all_logfiles ticks)"
  by (auto simp: all_logfiles_def)

lemma target_env_no_lookup [simp]: "target_env g env None = or_base env"
  by (simp add: target_env_def)

lemma issue_registered:
  assumes "env_servlets s (or_base env) = Some a" "valid_ref r"
  shows "\<exists>c s0. issue g env r s = (ObjectRef c, s0) \<and> env_servlets s0 = env_servlets s"
proof (cases r)
  case None
  then show ?thesis using assms(1)
    by (simp add: issue_def call_in_env_servlet_def get_env_servlet_def register_activity_def
        call_servlet_method_def)
next
  case (Some x)
  with assms(2) show ?thesis by (cases x) (simp_all add: valid_ref_def issue_def)
qed

lemma after_poll_ok:
  assumes "\<exists>ls. fst (flush_logs sl t fs) = Inr ls"
  shows "\<exists>zs fs1. after_poll sl t fs s ys r w = (if w then Again (ys @ zs) r fs1 s else Stop (ys @ zs) fs1 s)
           \<and> fs1 = snd (flush_logs sl t fs) \<and> (zs = [] \<or> (\<exists>ls. ls \<noteq> [] \<and> zs = [stdout_response ls]))"
  using assms by (cases "flush_logs sl t fs") (auto simp: after_poll_def Let_def)

lemma no_log_batches_stdout [simp]: "no_log_batches (ys @ [stdout_response ls]) = no_log_batches ys"
  by (simp add: no_log_batches_def stdout_response_def)

lemma loop_pass_nonclosing:
  assumes nc: "\<not> closing t" and ok: "reads_ok F t"
    and sub: "set fs \<subseteq> set F" "set (tick_files t) \<subseteq> set F"
    and reg: "env_servlets s (or_base env) = Some a" and v: "valid_ref r"
  shows "\<exists>ys r' fs1 s1. loop_pass g env sl r fs t s = Again ys r' fs1 s1 \<and> valid_ref r'
           \<and> env_servlets s1 = env_servlets s \<and> set fs1 \<subseteq> set F
           \<and> no_log_batches ys = (case relayed t of Some x \<Rightarrow> [x] | None \<Rightarrow> [])
           \<and> list_all is_nonterminal ys"
proof -
  from issue_registered [OF reg v] obtain c s0 where
    i: "issue g env r s = (ObjectRef c, s0)" and s0: "env_servlets s0 = env_servlets s" by blast
  have fl: "\<exists>ls. fst (flush_logs sl t fs) = Inr ls" using ok sub by (rule flush_logs_ok)
  have fsub: "set (snd (flush_logs sl t fs)) \<subseteq> set F" using sub by (rule flush_logs_files)
  note lp = loop_pass_cases [OF i, of sl fs t]
  show ?thesis
  proof (cases "ray_get t")
    case (Inl e)
    with nc have e: "e = GetTimeoutError" by (simp add: closing_def)
    from after_poll_ok [OF fl, of s0 "[]" "Some (ObjectRef c)" True] Inl e lp s0 fsub
    show ?thesis
      by (auto simp: valid_ref_def relayed_def no_log_batches_def stdout_response_def
          is_nonterminal_def)
  next
    case (Inr v')
    show ?thesis
    proof (cases v')
      case None
      from after_poll_ok [OF fl, of s0 "[]" None True] Inr None lp s0 fsub
      show ?thesis
        by (auto simp: valid_ref_def relayed_def no_log_batches_def stdout_response_def
            is_nonterminal_def)
    next
      case (Some x)
      with Inr nc have rs: "output_type x = RESULT_STREAM" by (simp add: closing_def)
      from after_poll_ok [OF fl, of s0 "[x]" None True] Inr Some lp s0 fsub rs
      show ?thesis
        by (auto simp: valid_ref_def relayed_def no_log_batches_def stdout_response_def
            is_nonterminal_def)
    qed
  qed
qed

lemma results_loop_prefix:
  assumes "list_all (\<lambda>t. \<not> closing t) pre" and "list_all (reads_ok F) pre"
    and "set fs \<subseteq> set F" "\<forall>t\<in>set pre. set (tick_files t) \<subseteq> set F"
    and "env_servlets s (or_base env) = Some a" and "valid_ref r"
  shows "\<exists>ys r' fs1 s1. valid_ref r' \<and> env_servlets s1 = env_servlets s \<and> set fs1 \<subseteq> set F
           \<and> no_log_batches ys = List.map_filter relayed pre \<and> list_all is_nonterminal ys
           \<and> (\<forall>ts. results_loop g env sl r fs (pre @ ts) s =
                 (case results_loop g env sl r' fs1 ts s1 of
                    (zs, en, fs', s') \<Rightarrow> (ys @ zs, en, fs', s')))"
  using assms
proof (induction pre arbitrary: r fs s)
  case Nil
  show ?case
    by (rule exI [of _ "[]"], rule exI [of _ r], rule exI [of _ fs], rule exI [of _ s])
      (use Nil in \<open>auto simp: no_log_batches_def List.map_filter_simps\<close>)
next
  case (Cons t pre)
  from Cons.prems have nc: "\<not> closing t" and ok: "reads_ok F t"
    and tf: "set (tick_files t) \<subseteq> set F" by simp_all
  from loop_pass_nonclosing [OF nc ok Cons.prems(3) tf Cons.prems(5,6), of g sl]
  obtain ys r1 fs1 s1 where lp: "loop_pass g env sl r fs t s = Again ys r1 fs1 s1"
    and v1: "valid_ref r1" and e1: "env_servlets s1 = env_servlets s" and f1: "set fs1 \<subseteq> set F"
    and y1: "no_log_batches ys = (case relayed t of Some x \<Rightarrow> [x] | None \<Rightarrow> [])"
    and n1: "list_all is_nonterminal ys" by blast
  have reg1: "env_servlets s1 (or_base env) = Some a" using e1 Cons.prems(5) by simp
  from Cons.IH [OF _ _ f1 _ reg1 v1] Cons.prems(1,2,4)
  obtain ys2 r2 fs2 s2 where v2: "valid_ref r2" and e2: "env_servlets s2 = env_servlets s1"
    and f2: "set fs2 \<subseteq> set F" and y2: "no_log_batches ys2 = List.map_filter relayed pre"
    and n2: "list_all is_nonterminal ys2"
    and rec: "\<forall>ts. results_loop g env sl r1 fs1 (pre @ ts) s1 =
                 (case results_loop g env sl r2 fs2 ts s2 of
                    (zs, en, fs', s') \<Rightarrow> (ys2 @ zs, en, fs', s'))" by auto
  show ?case
  proof (intro exI conjI)
    show "valid_ref r2" by (rule v2)
    show "env_servlets s2 = env_servlets s" using e1 e2 by simp
    show "set fs2 \<subseteq> set F" by (rule f2)
    show "no_log_batches (ys @ ys2) = List.map_filter relayed (t # pre)"
      using y1 y2 by (auto simp: no_log_batches_def List.map_filter_simps split: option.splits)
    show "list_all is_nonterminal (ys @ ys2)" using n1 n2 by simp
    show "\<forall>ts. results_loop g env sl r fs ((t # pre) @ ts) s =
                 (case results_loop g env sl r2 fs2 ts s2 of
                    (zs, en, fs', s') \<Rightarrow> ((ys @ ys2) @ zs, en, fs', s'))"
      using lp rec by (auto split: prod.splits)
  qed
qed


lemma results_loop_raise:
  assumes reg: "env_servlets s (or_base env) = Some a" and v: "valid_ref r"
    and e: "ray_get t = Inl e" "e \<noteq> GetTimeoutError"
  shows "fst (results_loop g env sl r fs (t # rest) s) = [exception_response e]"
    and "fst (snd (results_loop g env sl r fs (t # rest) s)) = Closed"
proof -
  from issue_registered [OF reg v] obtain c s0 where
    i: "issue g env r s = (ObjectRef c, s0)" by blast
  from loop_pass_cases [OF i, of sl fs t] e
  have "loop_pass g env sl r fs t s = Stop [exception_response e] fs s0" by simp
  then show "fst (results_loop g env sl r fs (t # rest) s) = [exception_response e]"
    and "fst (snd (results_loop g env sl r fs (t # rest) s)) = Closed" by simp_all
qed

lemma results_loop_final:
  assumes reg: "env_servlets s (or_base env) = Some a" and v: "valid_ref r"
    and x: "ray_get t = Inr (Some x)" "output_type x \<noteq> RESULT_STREAM"
    and ok: "reads_ok F t" and sub: "set fs \<subseteq> set F" "set (tick_files t) \<subseteq> set F"
  shows "\<exists>zs. fst (results_loop g env sl r fs (t # rest) s) = x # zs
           \<and> (zs = [] \<or> (\<exists>ls. ls \<noteq> [] \<and> zs = [stdout_response ls]))"
    and "fst (snd (results_loop g env sl r fs (t # rest) s)) = Closed"
proof -
  from issue_registered [OF reg v] obtain c s0 where
    i: "issue g env r s = (ObjectRef c, s0)" by blast
  have fl: "\<exists>ls. fst (flush_logs sl t fs) = Inr ls" using ok sub by (rule flush_logs_ok)
  from after_poll_ok [OF fl, of s0 "[x]" None False] loop_pass_cases [OF i, of sl fs t] x
  obtain zs fs1 where "loop_pass g env sl r fs t s = Stop ([x] @ zs) fs1 s0"
    and "zs = [] \<or> (\<exists>ls. ls \<noteq> [] \<and> zs = [stdout_response ls])" by auto
  then show "\<exists>zs. fst (results_loop g env sl r fs (t # rest) s) = x # zs
           \<and> (zs = [] \<or> (\<exists>ls. ls \<noteq> [] \<and> zs = [stdout_response ls]))"
    and "fst (snd (results_loop g env sl r fs (t # rest) s)) = Closed" by auto
qed

lemma call_module_method_registers:
  assumes "call_module_method gen g module method msg s = (Stream_reply key env sl, m', s')"
  shows "\<exists>a. env_servlets s' (or_base env) = Some a"
    and "sl = stream_logs (case msg of None \<Rightarrow> default_message | Some m \<Rightarrow> m)"
proof -
  let ?m1 = "case msg of None \<Rightarrow> default_message | Some m \<Rightarrow> m"
  let ?m2 = "?m1\<lparr>msg_key := py_or (msg_key ?m1)
      (Some (gen (default_prefix module (if method = Some ''None'' then None else method))))\<rparr>"
  let ?env = "py_or (msg_env ?m2) (lookup_env_for_name g module)"
  obtain ref s1 where c: "call_in_env_servlet g submitted ?env True None False (register_activity s)
      = (ref, s1)" by (cases "call_in_env_servlet g submitted ?env True None False (register_activity s)")
  have reg: "\<exists>a. env_servlets s1 (or_base ?env) = Some a"
    using c
    by (auto simp: call_in_env_servlet_def get_env_servlet_def call_servlet_method_def
        ray_get_or_create_def register_activity_def Let_def
        split: option.splits prod.splits sum.splits if_splits)
  from assms c have "env = ?env \<and> env_servlets s' = env_servlets s1 \<and> sl = stream_logs ?m1"
    by (auto simp: call_module_method_def Let_def split: option.splits if_splits)
  with reg show "\<exists>a. env_servlets s' (or_base env) = Some a"
    and "sl = stream_logs (case msg of None \<Rightarrow> default_message | Some m \<Rightarrow> m)" by simp_all
qed

lemma logs_ok_covered:
  assumes "logs_ok ticks"
  shows "list_all (reads_ok (all_logfiles ticks)) ticks"
    and "\<forall>t\<in>set ticks. set (tick_files t) \<subseteq> set (all_logfiles ticks)"
  using assms all_logfiles_covers [of ticks] by (simp_all add: logs_ok_def)

lemma generator_never_raises:
  "fst (snd (get_results_and_logs_generator g env sl ticks s)) \<noteq> Raised e"
  unfolding get_results_and_logs_generator_def by (rule results_loop_never_raises)

lemma blocking_call_raises:
  assumes "get_env_servlet (target_env g env lookup_name) create (register_activity s) = (Inr a, s1)"
    and "method a s1 = (Inl e, s2)"
  shows "call_in_env_servlet g method env create lookup_name True s
           = (Failure (exception_response e), register_activity s2)"
  using assms by (simp add: call_in_env_servlet_def call_servlet_method_def)

lemma raising_stream:
  assumes cm: "fst (call_module_method gen g module method msg s) = Stream_reply key env sl"
    and nc: "list_all (\<lambda>t. \<not> closing t) pre" and lo: "logs_ok pre"
    and e: "ray_get t = Inl e" "e \<noteq> GetTimeoutError"
  shows "\<exists>ys. fst (get_results_and_logs_generator g env sl (pre @ t # rest)
                  (snd (snd (call_module_method gen g module method msg s))))
               = ys @ [exception_response e]
             \<and> list_all is_nonterminal ys \<and> no_log_batches ys = List.map_filter relayed pre"
    and "fst (snd (get_results_and_logs_generator g env sl (pre @ t # rest)
                  (snd (snd (call_module_method gen g module method msg s))))) = Closed"
proof -
  let ?s = "snd (snd (call_module_method gen g module method msg s))"
  have "call_module_method gen g module method msg s
          = (Stream_reply key env sl, fst (snd (call_module_method gen g module method msg s)), ?s)"
    using cm by (metis prod.collapse)
  from call_module_method_registers(1) [OF this] obtain a where
    reg: "env_servlets ?s (or_base env) = Some a" by blast
  have v: "valid_ref None" by (simp add: valid_ref_def)
  from results_loop_prefix [OF nc logs_ok_covered(1) [OF lo] _ logs_ok_covered(2) [OF lo] reg v,
      of "[]" g sl]
  obtain ys r' fs1 s1 where v1: "valid_ref r'" and e1: "env_servlets s1 = env_servlets ?s"
    and y: "no_log_batches ys = List.map_filter relayed pre" and n: "list_all is_nonterminal ys"
    and rec: "\<forall>ts. results_loop g env sl None [] (pre @ ts) ?s =
                 (case results_loop g env sl r' fs1 ts s1 of
                    (zs, en, fs', s') \<Rightarrow> (ys @ zs, en, fs', s'))" by auto
  have reg1: "env_servlets s1 (or_base env) = Some a" using e1 reg by simp
  note fin = results_loop_raise [OF reg1 v1 e, of g sl fs1 rest]
  from rec have "results_loop g env sl None [] (pre @ t # rest) ?s =
                 (case results_loop g env sl r' fs1 (t # rest) s1 of
                    (zs, en, fs', s') \<Rightarrow> (ys @ zs, en, fs', s'))" by blast
  with fin have a: "fst (results_loop g env sl None [] (pre @ t # rest) ?s) = ys @ [exception_response e]"
    and b: "fst (snd (results_loop g env sl None [] (pre @ t # rest) ?s)) = Closed"
    by (auto split: prod.splits)
  from a y n show "\<exists>ys. fst (get_results_and_logs_generator g env sl (pre @ t # rest) ?s)
               = ys @ [exception_response e]
             \<and> list_all is_nonterminal ys \<and> no_log_batches ys = List.map_filter relayed pre"
    unfolding get_results_and_logs_generator_def by blast
  from b show "fst (snd (get_results_and_logs_generator g env sl (pre @ t # rest) ?s)) = Closed"
    unfolding get_results_and_logs_generator_def .
qed

lemma split_at_marker:
  assumes "as @ x # bs = cs @ [f]" and "list_all P as" "list_all P cs" "\<not> P x" "\<not> P f"
  shows "as = cs \<and> x = f \<and> bs = []"
proof -
  have "takeWhile P (as @ x # bs) = as" using assms(2,4) by (simp add: list_all_iff takeWhile_append2)
  moreover have "takeWhile P (cs @ [f]) = cs" using assms(3,5) by (simp add: list_all_iff takeWhile_append2)
  ultimately have "as = cs" using assms(1) by simp
  with assms(1) show ?thesis by simp
qed

lemma nonclosing_relays_stream:
  "list_all (\<lambda>t. \<not> closing t) pre \<Longrightarrow>
   list_all (\<lambda>r. output_type r = RESULT_STREAM) (List.map_filter relayed pre)"
  by (induction pre)
    (auto simp: List.map_filter_simps closing_def relayed_def split: option.splits sum.splits)

lemma map_filter_append: "List.map_filter f (xs @ ys) = List.map_filter f xs @ List.map_filter f ys"
  by (simp add: List.map_filter_def)

lemma sequence_stream:
  assumes cm: "fst (call_module_method gen g module method msg s) = Stream_reply key env sl"
    and del: "List.map_filter relayed ticks = sequence_responses elements final"
    and np: "list_all no_poll_error ticks" and lo: "logs_ok ticks"
  shows "no_log_batches (fst (get_results_and_logs_generator g env sl ticks
                  (snd (snd (call_module_method gen g module method msg s)))))
           = sequence_responses elements final"
    and "fst (snd (get_results_and_logs_generator g env sl ticks
                  (snd (snd (call_module_method gen g module method msg s))))) = Closed"
proof -
  let ?s = "snd (snd (call_module_method gen g module method msg s))"
  let ?P = "\<lambda>r. output_type r = RESULT_STREAM"
  define pre where "pre = takeWhile (\<lambda>t. \<not> closing t) ticks"
  define post where "post = dropWhile (\<lambda>t. \<not> closing t) ticks"
  have ticks: "ticks = pre @ post" by (simp add: pre_def post_def)
  have nc: "list_all (\<lambda>t. \<not> closing t) pre"
    by (auto simp: pre_def list_all_iff dest: set_takeWhileD)
  have "post \<noteq> []"
  proof
    assume "post = []"
    with ticks nc have "list_all ?P (List.map_filter relayed ticks)"
      by (simp add: nonclosing_relays_stream)
    with del show False
      by (simp add: sequence_responses_def result_response_def)
  qed
  then obtain t rest where post: "post = t # rest" by (cases post) auto
  have ct: "closing t" using post hd_dropWhile [of "\<lambda>t. \<not> closing t" ticks]
    by (auto simp: post_def)
  have "t \<in> set ticks" using ticks post by simp
  with np have "no_poll_error t" by (simp add: list_all_iff)
  with ct obtain x where x: "ray_get t = Inr (Some x)" "output_type x \<noteq> RESULT_STREAM"
    by (auto simp: closing_def no_poll_error_def split: sum.splits option.splits)
  then have rt: "relayed t = Some x" by (simp add: relayed_def)
  have "List.map_filter relayed pre @ x # List.map_filter relayed rest
          = map stream_response elements @ [result_response final]"
    using del ticks post rt
    by (simp add: map_filter_append List.map_filter_simps sequence_responses_def)
  from split_at_marker [OF this, of ?P] nonclosing_relays_stream [OF nc] x(2)
  have eq: "List.map_filter relayed pre = map stream_response elements"
    and xf: "x = result_response final"
    by (simp_all add: list_all_iff stream_response_def result_response_def)
  have "call_module_method gen g module method msg s
          = (Stream_reply key env sl, fst (snd (call_module_method gen g module method msg s)), ?s)"
    using cm by (metis prod.collapse)
  from call_module_method_registers(1) [OF this] obtain a where
    reg: "env_servlets ?s (or_base env) = Some a" by blast
  have v: "valid_ref None" by (simp add: valid_ref_def)
  let ?F = "all_logfiles ticks"
  have okall: "list_all (reads_ok ?F) ticks" and cov: "\<forall>t\<in>set ticks. set (tick_files t) \<subseteq> set ?F"
    using logs_ok_covered [OF lo] by simp_all
  have okpre: "list_all (reads_ok ?F) pre" and covpre: "\<forall>t\<in>set pre. set (tick_files t) \<subseteq> set ?F"
    and okt: "reads_ok ?F t" and covt: "set (tick_files t) \<subseteq> set ?F"
    using okall cov ticks post by (simp_all add: list_all_iff)
  from results_loop_prefix [OF nc okpre _ covpre reg v, of "[]" g sl]
  obtain ys r' fs1 s1 where v1: "valid_ref r'" and e1: "env_servlets s1 = env_servlets ?s"
    and f1: "set fs1 \<subseteq> set ?F"
    and y: "no_log_batches ys = List.map_filter relayed pre"
    and rec: "\<forall>ts. results_loop g env sl None [] (pre @ ts) ?s =
                 (case results_loop g env sl r' fs1 ts s1 of
                    (zs, en, fs', s') \<Rightarrow> (ys @ zs, en, fs', s'))" by auto
  have reg1: "env_servlets s1 (or_base env) = Some a" using e1 reg by simp
  from results_loop_final [OF reg1 v1 x okt f1 covt, of g sl rest]
  obtain zs where z: "fst (results_loop g env sl r' fs1 (t # rest) s1) = x # zs"
    and zs: "zs = [] \<or> (\<exists>ls. ls \<noteq> [] \<and> zs = [stdout_response ls])"
    and cl: "fst (snd (results_loop g env sl r' fs1 (t # rest) s1)) = Closed" by blast
  from rec have "results_loop g env sl None [] ticks ?s =
                 (case results_loop g env sl r' fs1 (t # rest) s1 of
                    (zs, en, fs', s') \<Rightarrow> (ys @ zs, en, fs', s'))"
    unfolding ticks post by blast
  with z cl have a: "fst (results_loop g env sl None [] ticks ?s) = ys @ x # zs"
    and b: "fst (snd (results_loop g env sl None [] ticks ?s)) = Closed"
    by (auto split: prod.splits)
  have "no_log_batches (ys @ x # zs) = no_log_batches ys @ [x]"
    using zs xf by (auto simp: no_log_batches_def result_response_def stdout_response_def)
  with a y eq xf show "no_log_batches (fst (get_results_and_logs_generator g env sl ticks ?s))
           = sequence_responses elements final"
    by (simp add: get_results_and_logs_generator_def sequence_responses_def)
  from b show "fst (snd (get_results_and_logs_generator g env sl ticks ?s)) = Closed"
    by (simp add: get_results_and_logs_generator_def)
qed

lemma flush_logs_update [simp]:
  "flush_logs sl ((t::tick)\<lparr>ray_get := p\<rparr>) fs = flush_logs sl t fs"
  by (cases "logfiles t")
    (auto simp: flush_logs_def open_new_logfiles_def split: prod.splits option.splits)

lemma after_poll_update [simp]:
  "after_poll sl ((t::tick)\<lparr>ray_get := p\<rparr>) fs s ys r w = after_poll sl t fs s ys r w"
  by (simp add: after_poll_def)

lemma after_poll_yielded:
  "pass_yielded (after_poll sl t fs s ys r w) =
     ys @ (case flush_logs sl t fs of
             (Inl e, fs') \<Rightarrow> [exception_response e]
           | (Inr ls, fs') \<Rightarrow> if ls \<noteq> [] then [stdout_response ls] else [])"
  by (auto simp: after_poll_def Let_def split: prod.splits sum.splits)

lemma timeout_pass:
  assumes "ray_get t = Inl GetTimeoutError" and "fst (issue g env r s) = ObjectRef a"
  shows "loop_pass g env sl r fs t s =
           (case flush_logs sl t fs of
              (Inl e, fs') \<Rightarrow> Stop [exception_response e] fs' (snd (issue g env r s))
            | (Inr ls, fs') \<Rightarrow>
                Again (if ls \<noteq> [] then [stdout_response ls] else []) (Some (ObjectRef a)) fs'
                  (snd (issue g env r s)))"
    and "pass_yielded (loop_pass g env sl r fs t s)
           = pass_yielded (loop_pass g env sl r fs (t\<lparr>ray_get := Inr None\<rparr>) s)"
proof -
  have i: "issue g env r s = (ObjectRef a, snd (issue g env r s))"
    using assms(2) by (metis prod.collapse)
  show "loop_pass g env sl r fs t s =
           (case flush_logs sl t fs of
              (Inl e, fs') \<Rightarrow> Stop [exception_response e] fs' (snd (issue g env r s))
            | (Inr ls, fs') \<Rightarrow>
                Again (if ls \<noteq> [] then [stdout_response ls] else []) (Some (ObjectRef a)) fs'
                  (snd (issue g env r s)))"
    unfolding loop_pass_cases [OF i] using assms(1)
    by (auto simp: after_poll_def Let_def split: prod.splits sum.splits)
  show "pass_yielded (loop_pass g env sl r fs t s)
           = pass_yielded (loop_pass g env sl r fs (t\<lparr>ray_get := Inr None\<rparr>) s)"
    unfolding loop_pass_cases [OF i] using assms(1) by (simp add: after_poll_yielded)
qed

lemma open_each_error: "fst (open_each err fs open_files) = Some e \<Longrightarrow> \<exists>m. e = OtherError m"
  by (induction fs arbitrary: open_files) (auto split: if_splits option.splits)

lemma read_all_error: "read_all rd fs = Inl e \<Longrightarrow> \<exists>m. e = OtherError m"
  by (induction fs) (auto split: sum.splits)

lemma flush_logs_error: "fst (flush_logs sl t fs) = Inl e \<Longrightarrow> \<exists>m. e = OtherError m"
  using open_each_error [of "open_error t" "tick_files t" fs e] read_all_error [of "readlines t" _ e]
  by (auto simp: flush_logs_def open_new_logfiles_def tick_files_def
      split: if_splits prod.splits option.splits)

lemma origin_ok_mono: "set a \<subseteq> set b \<Longrightarrow> origin_ok a r \<Longrightarrow> origin_ok b r"
  by (auto simp: origin_ok_def)

lemma after_poll_origin:
  assumes "list_all (origin_ok rs) ys"
  shows "list_all (origin_ok rs) (pass_yielded (after_poll sl t fs s ys r w))"
proof -
  have "\<And>e fs'. flush_logs sl t fs = (Inl e, fs') \<Longrightarrow> origin_ok rs (exception_response e)"
    using flush_logs_error [of sl t fs] by (fastforce simp: origin_ok_def)
  then show ?thesis using assms
    by (auto simp: after_poll_yielded origin_ok_def split: prod.splits sum.splits)
qed

lemma loop_pass_origin:
  "list_all (origin_ok (case relayed t of Some x \<Rightarrow> [x] | None \<Rightarrow> []))
     (pass_yielded (loop_pass g env sl r fs t s))"
proof -
  obtain ref s0 where i: "issue g env r s = (ref, s0)" by (cases "issue g env r s")
  let ?rs = "case relayed t of Some x \<Rightarrow> [x] | None \<Rightarrow> []"
  show ?thesis
  proof (cases "ray_get_on ref t")
    case (Inl e)
    then show ?thesis unfolding loop_pass_cases [OF i]
      using after_poll_origin [of ?rs "[]" sl t fs s0 "Some ref" True]
      by (auto simp: origin_ok_def)
  next
    case (Inr v)
    show ?thesis
    proof (cases v)
      case None
      with Inr show ?thesis unfolding loop_pass_cases [OF i]
        using after_poll_origin [of ?rs "[]" sl t fs s0 None True] by simp
    next
      case (Some x)
      with Inr have "relayed t = Some x" by (cases ref) (simp_all add: relayed_def)
      then have "list_all (origin_ok ?rs) [x]" by (simp add: origin_ok_def)
      from after_poll_origin [OF this, of sl t fs s0 None "output_type x = RESULT_STREAM"] Inr Some
      show ?thesis unfolding loop_pass_cases [OF i] by simp
    qed
  qed
qed

lemma results_loop_origin:
  "list_all (origin_ok (List.map_filter relayed ticks)) (fst (results_loop g env sl r fs ticks s))"
proof (induction ticks arbitrary: r fs s)
  case Nil
  then show ?case by simp
next
  case (Cons t ticks)
  let ?rs = "case relayed t of Some x \<Rightarrow> [x] | None \<Rightarrow> []"
  have m: "List.map_filter relayed (t # ticks) = ?rs @ List.map_filter relayed ticks"
    by (simp add: List.map_filter_simps split: option.splits)
  have a: "list_all (origin_ok (List.map_filter relayed (t # ticks)))
             (pass_yielded (loop_pass g env sl r fs t s))"
    using loop_pass_origin [of t g env sl r fs s] unfolding m
    by (auto simp: list_all_iff intro: origin_ok_mono [rotated])
  show ?case
  proof (cases "loop_pass g env sl r fs t s")
    case (Stop ys fs1 s1)
    with a show ?thesis by simp
  next
    case (Again ys ref fs1 s1)
    have "list_all (origin_ok (List.map_filter relayed (t # ticks)))
            (fst (results_loop g env sl ref fs1 ticks s1))"
      using Cons.IH [of ref fs1 s1] unfolding m
      by (auto simp: list_all_iff intro: origin_ok_mono [rotated])
    with a Again show ?thesis by (auto split: prod.splits)
  qed
qed

lemma after_poll_silent:
  "after_poll False t fs s ys r w = (if w then Again ys r [] s else Stop ys [] s)"
  by (simp add: after_poll_def flush_logs_def)

lemma loop_pass_silent:
  assumes "case relayed t of Some r \<Rightarrow> output_type r \<noteq> STDOUT | None \<Rightarrow> True"
  shows "pass_files (loop_pass g env False r [] t s) = []
       \<and> list_all not_stdout (pass_yielded (loop_pass g env False r [] t s))"
proof -
  obtain ref s0 where i: "issue g env r s = (ref, s0)" by (cases "issue g env r s")
  show ?thesis
  proof (cases "ray_get_on ref t")
    case (Inl e)
    then show ?thesis unfolding loop_pass_cases [OF i]
      by (simp add: after_poll_silent not_stdout_def exception_response_def)
  next
    case (Inr v)
    show ?thesis
    proof (cases v)
      case None
      with Inr show ?thesis unfolding loop_pass_cases [OF i] by (simp add: after_poll_silent)
    next
      case (Some x)
      with Inr have "relayed t = Some x" by (cases ref) (simp_all add: relayed_def)
      with assms Inr Some show ?thesis unfolding loop_pass_cases [OF i]
        by (simp add: after_poll_silent not_stdout_def)
    qed
  qed
qed

lemma results_loop_silent:
  assumes "relays_no_stdout ticks"
  shows "list_all not_stdout (fst (results_loop g env False r [] ticks s))
       \<and> fst (snd (snd (results_loop g env False r [] ticks s))) = []"
  using assms
proof (induction ticks arbitrary: r s)
  case Nil
  then show ?case by simp
next
  case (Cons t ticks)
  from Cons.prems have rt: "case relayed t of Some r \<Rightarrow> output_type r \<noteq> STDOUT | None \<Rightarrow> True"
    and rest: "relays_no_stdout ticks" by (simp_all add: relays_no_stdout_def)
  note lp = loop_pass_silent [OF rt, of g env r s]
  show ?case
  proof (cases "loop_pass g env False r [] t s")
    case (Stop ys fs1 s1)
    with lp show ?thesis by simp
  next
    case (Again ys ref fs1 s1)
    with lp have "fs1 = []" and "list_all not_stdout ys" by simp_all
    with Cons.IH [OF rest, of ref s1] Again show ?thesis by (auto split: prod.splits)
  qed
qed

lemma call_failure_is_exception:
  "fst (call_in_env_servlet g method env create lookup_name block s) = Failure r \<Longrightarrow>
   \<exists>e. r = exception_response e"
  by (auto simp: call_in_env_servlet_def call_servlet_method_def Let_def
      split: prod.splits sum.splits if_splits)

lemma servlet_get_result:
  "fst (call_in_env_servlet g (servlet_get key) env create lookup_name True s) = Value (Some r) \<Longrightarrow>
   \<exists>v. r = result_response v"
  by (auto simp: call_in_env_servlet_def call_servlet_method_def servlet_get_def Let_def
      split: prod.splits sum.splits if_splits)

lemma fetch_pass_silent:
  "(case fetch_pass g env key False known [] t s of
      Got ys r fs s1 \<Rightarrow> ys = [] \<and> fs = [] \<and> not_stdout r
    | Wait ys lf fs s1 \<Rightarrow> ys = [] \<and> fs = []
    | Fault e fs s1 \<Rightarrow> fs = [])"
proof -
  obtain ret s1 where c: "call_in_env_servlet g (servlet_get key) env False (Some key) True s = (ret, s1)"
    by (cases "call_in_env_servlet g (servlet_get key) env False (Some key) True s")
  show ?thesis
  proof (cases ret)
    case (Value v)
    show ?thesis
    proof (cases v)
      case None
      with Value c show ?thesis by (simp add: fetch_pass_def)
    next
      case (Some r)
      with Value c servlet_get_result [of g key env False "Some key" s r]
      show ?thesis by (auto simp: fetch_pass_def not_stdout_def result_response_def)
    qed
  next
    case (ObjectRef a)
    with c show ?thesis by (simp add: fetch_pass_def)
  next
    case (Failure r)
    with c call_failure_is_exception [of g "servlet_get key" env False "Some key" True s r]
    show ?thesis by (auto simp: fetch_pass_def not_stdout_def exception_response_def)
  qed
qed

lemma fetch_loop_silent:
  "list_all not_stdout (fst (fetch_loop g env key False known [] ticks s))
   \<and> fst (snd (snd (fetch_loop g env key False known [] ticks s))) = []"
proof (induction ticks arbitrary: known s)
  case Nil
  then show ?case by simp
next
  case (Cons t ticks)
  note fp = fetch_pass_silent [of g env key known t s]
  show ?case
  proof (cases "fetch_pass g env key False known [] t s")
    case (Got ys r fs s1)
    with fp show ?thesis by simp
  next
    case (Wait ys lf fs s1)
    with fp have "ys = []" "fs = []" by simp_all
    with Cons.IH [of lf "others t s1"] Wait show ?thesis by (auto split: prod.splits)
  next
    case (Fault e fs s1)
    with fp show ?thesis by simp
  qed
qed

subsection \<open>One terminal Response\<close>

lemmas run_defs =
  get_results_and_logs_generator_def loop_pass_def issue_def call_in_env_servlet_def
  call_servlet_method_def get_env_servlet_def target_env_def or_base_def py_or_def
  lookup_env_for_name_def running_server_def HTTPServer_init_def fresh_server_def
  ray_get_or_create_def register_activity_def logging_tick_def quiet_tick_def after_poll_def
  flush_logs_def open_new_logfiles_def result_response_def stdout_response_def
  stream_response_def exception_response_def

text \<open>
  Claim C3, the claim as stated fails: with \<open>stream_logs\<close> set, the pass that relays the
  terminal \<open>RESULT\<close> goes on to its log flush, and the lines read there are yielded after
  the \<open>RESULT\<close>. Here the stream is the \<open>RESULT\<close> followed by a \<open>STDOUT\<close> Response, so its
  last element is not the terminal Response.
\<close>

theorem terminal_not_last_counterexample:
  "fst (get_results_and_logs_generator (\<lambda>_. None) None True
          [logging_tick (Inr (Some (result_response (Some ''13'')))) [''done'']] running_server)
     = [result_response (Some ''13''), stdout_response [''done'']]
   \<and> is_terminal (result_response (Some ''13''))
   \<and> \<not> is_terminal (last [result_response (Some ''13''), stdout_response [''done'']])"
  by (simp add: run_defs is_terminal_def)

text \<open>
  Claim C3, amended. Provided the result source hands out no Response of type \<open>STDOUT\<close>
  and the pass that relays the Response ending the loop reads its log files without an
  error: the stream of a call closes as soon as the poll raises something other than the
  timeout or relays a Response not of type \<open>RESULT_STREAM\<close>; and a closed stream holds exactly
  one terminal Response (\<open>RESULT\<close> or \<open>EXCEPTION\<close>), every element before it is of type
  \<open>RESULT_STREAM\<close> or \<open>STDOUT\<close>, and after it comes nothing or one \<open>STDOUT\<close> batch, the log
  lines of the last flush.
\<close>

theorem stream_has_one_terminal:
  assumes "relays_no_stdout ticks" and "final_flush_ok ticks"
  shows "(list_ex closing ticks \<longrightarrow>
            fst (snd (get_results_and_logs_generator get_env env sl ticks s)) = Closed)
       \<and> (fst (snd (get_results_and_logs_generator get_env env sl ticks s)) = Closed \<longrightarrow>
            length (filter is_terminal
              (fst (get_results_and_logs_generator get_env env sl ticks s))) = 1
            \<and> (\<exists>pre t post.
                  fst (get_results_and_logs_generator get_env env sl ticks s) = pre @ [t] @ post
                  \<and> list_all is_nonterminal pre \<and> is_terminal t
                  \<and> (post = [] \<or> (\<exists>ls. post = [stdout_response ls]))))"
proof -
  let ?G = "get_results_and_logs_generator get_env env sl ticks s"
  have closes: "list_ex closing ticks \<Longrightarrow> fst (snd ?G) = Closed"
    unfolding get_results_and_logs_generator_def by (rule results_loop_closes)
  have shape: "ends_well (fst ?G)" if c: "fst (snd ?G) = Closed"
  proof -
    obtain ys en fs s' where g: "results_loop get_env env sl None [] ticks s = (ys, en, fs, s')"
      by (cases "results_loop get_env env sl None [] ticks s")
    with c have "en = Closed" by (simp add: get_results_and_logs_generator_def)
    have cov: "\<forall>t\<in>set ticks. set (tick_files t) \<subseteq> set (all_logfiles ticks)"
      by (rule all_logfiles_covers)
    have r: "results_loop get_env env sl None [] ticks s = (ys, Closed, fs, s')"
      using g \<open>en = Closed\<close> by simp
    have "ends_well ys"
      using results_loop_structure [OF r _ _ _ cov] assms
      by (simp add: relays_no_stdout_def final_flush_ok_def)
    with g show ?thesis by (simp add: get_results_and_logs_generator_def)
  qed
  from closes shape ends_well_count [of "fst ?G"] show ?thesis
    unfolding ends_well_def by blast
qed

theorem stream_has_one_terminal_witness:
  "relays_no_stdout example_ticks \<and> final_flush_ok example_ticks \<and> list_ex closing example_ticks
   \<and> fst (get_results_and_logs_generator (\<lambda>_. None) None True example_ticks running_server)
       = [stream_response ''5'', stdout_response [''Hello from the cluster! 0''],
          result_response (Some ''13''), stdout_response [''Hello from the cluster! 1'']]
   \<and> fst (snd (get_results_and_logs_generator (\<lambda>_. None) None True example_ticks running_server))
       = Closed
   \<and> length (filter is_terminal
        (fst (get_results_and_logs_generator (\<lambda>_. None) None True example_ticks running_server)))
       = 1"
proof -
  have h1: "relays_no_stdout example_ticks"
    by (simp add: relays_no_stdout_def example_ticks_def relayed_def run_defs)
  have h2: "final_flush_ok example_ticks"
    by (simp add: final_flush_ok_def final_ok_def all_logfiles_def tick_files_def reads_ok_def
        example_ticks_def relayed_def run_defs)
  have h3: "list_ex closing example_ticks"
    by (simp add: closing_def example_ticks_def run_defs)
  have ev: "fst (get_results_and_logs_generator (\<lambda>_. None) None True example_ticks running_server)
       = [stream_response ''5'', stdout_response [''Hello from the cluster! 0''],
          result_response (Some ''13''), stdout_response [''Hello from the cluster! 1'']]"
    by (simp add: example_ticks_def run_defs)
  from stream_has_one_terminal [OF h1 h2, of "\<lambda>_. None" None True running_server] h1 h2 h3 ev
  show ?thesis by simp
qed

subsection \<open>Lazy sequences\<close>

lemmas call_defs =
  call_module_method_def default_prefix_def submitted_def summer_message_def example_name_def

lemma filter_no_log_batches:
  assumes "\<And>r. P r \<Longrightarrow> output_type r \<noteq> STDOUT"
  shows "filter P ys = filter P (no_log_batches ys)"
  using assms by (induction ys) (auto simp: no_log_batches_def)

text \<open>
  Claim C2, the claim as stated fails. The result source hands out the two chunks of a lazy
  sequence and its \<open>RESULT\<close>, but reading the log file fails in the pass that relays the
  first chunk: the handler of the loop yields an \<open>EXCEPTION\<close> Response and the stream ends
  there, with one \<open>RESULT_STREAM\<close> Response and no \<open>RESULT\<close>. And with \<open>remote\<close> set the call
  has no stream: the answer is one \<open>RESULT\<close> Response that carries the key.
\<close>

theorem broken_log_counterexample:
  "List.map_filter relayed broken_ticks = sequence_responses [''name'', ''version''] None
   \<and> fst (get_results_and_logs_generator (\<lambda>_. None) None True broken_ticks running_server)
       = [stream_response ''name'', exception_response (OtherError ''Input/output error'')]
   \<and> filter (\<lambda>r. output_type r = RESULT)
        [stream_response ''name'', exception_response (OtherError ''Input/output error'')] = []
   \<and> fst (call_module_method example_name (\<lambda>_. None) ''config_dict'' (Some ''__iter__'')
          (Some (summer_message\<lparr>remote := True\<rparr>)) running_server)
       = Key_reply \<lparr>resp_data = Some (Pickled ''summer_call''), resp_error = None,
                    resp_traceback = None, output_type = RESULT\<rparr>"
  by (simp add: broken_ticks_def unreadable_tick_def List.map_filter_simps relayed_def
      sequence_responses_def call_defs run_defs)

text \<open>
  Claim C2, amended. A call is streamed (\<open>remote\<close> not set: \<open>call_module_method\<close> answered
  with the stream), the result source hands out, in this order and through whatever
  polls, the Responses of a lazy sequence of N elements (N chunks of type
  \<open>RESULT_STREAM\<close>, then the \<open>RESULT\<close>), no poll raises anything but the timeout and no log
  read fails. Then the stream closes, its Responses of type \<open>RESULT_STREAM\<close> are exactly the
  N chunks in the order produced, and its only terminal Response is the \<open>RESULT\<close>, which
  comes after all of them; batches of log lines may come between and after them.
\<close>

theorem lazy_sequence_streams_in_order:
  assumes "fst (call_module_method gen g module method msg s) = Stream_reply key env sl"
    and "List.map_filter relayed ticks = sequence_responses elements final"
    and "list_all no_poll_error ticks" and "logs_ok ticks"
  shows "fst (snd (get_results_and_logs_generator g env sl ticks
                  (snd (snd (call_module_method gen g module method msg s))))) = Closed
       \<and> no_log_batches (fst (get_results_and_logs_generator g env sl ticks
                  (snd (snd (call_module_method gen g module method msg s)))))
           = map stream_response elements @ [result_response final]
       \<and> filter (\<lambda>r. output_type r = RESULT_STREAM)
            (fst (get_results_and_logs_generator g env sl ticks
                  (snd (snd (call_module_method gen g module method msg s)))))
           = map stream_response elements
       \<and> filter is_terminal
            (fst (get_results_and_logs_generator g env sl ticks
                  (snd (snd (call_module_method gen g module method msg s)))))
           = [result_response final]"
proof -
  let ?ys = "fst (get_results_and_logs_generator g env sl ticks
                  (snd (snd (call_module_method gen g module method msg s))))"
  note st = sequence_stream [OF assms]
  have nb: "no_log_batches ?ys = map stream_response elements @ [result_response final]"
    using st(1) by (simp add: sequence_responses_def)
  have "filter (\<lambda>r. output_type r = RESULT_STREAM) ?ys
          = filter (\<lambda>r. output_type r = RESULT_STREAM) (no_log_batches ?ys)"
    by (rule filter_no_log_batches) simp
  then have a: "filter (\<lambda>r. output_type r = RESULT_STREAM) ?ys = map stream_response elements"
    unfolding nb by (simp add: stream_response_def result_response_def filter_empty_conv comp_def)
  have "filter is_terminal ?ys = filter is_terminal (no_log_batches ?ys)"
    by (rule filter_no_log_batches) (auto simp: is_terminal_def)
  then have b: "filter is_terminal ?ys = [result_response final]"
    unfolding nb
    by (simp add: stream_response_def result_response_def is_terminal_def filter_empty_conv)
  from st(2) nb a b show ?thesis by simp
qed

theorem lazy_sequence_streams_in_order_witness:
  "fst (call_module_method example_name (\<lambda>_. None) ''config_dict'' (Some ''__iter__'')
          (Some summer_message) running_server) = Stream_reply ''summer_call'' None True
   \<and> List.map_filter relayed iterator_ticks = sequence_responses [''name'', ''version''] None
   \<and> list_all no_poll_error iterator_ticks \<and> logs_ok iterator_ticks
   \<and> fst (get_results_and_logs_generator (\<lambda>_. None) None True iterator_ticks
        (snd (snd (call_module_method example_name (\<lambda>_. None) ''config_dict'' (Some ''__iter__'')
          (Some summer_message) running_server))))
       = [stream_response ''name'', stdout_response [''Hello from the cluster! 0''],
          stream_response ''version'', result_response None,
          stdout_response [''Hello from the cluster! 1'']]
   \<and> filter (\<lambda>r. output_type r = RESULT_STREAM)
        (fst (get_results_and_logs_generator (\<lambda>_. None) None True iterator_ticks
          (snd (snd (call_module_method example_name (\<lambda>_. None) ''config_dict'' (Some ''__iter__'')
            (Some summer_message) running_server)))))
       = map stream_response [''name'', ''version'']
   \<and> filter is_terminal
        (fst (get_results_and_logs_generator (\<lambda>_. None) None True iterator_ticks
          (snd (snd (call_module_method example_name (\<lambda>_. None) ''config_dict'' (Some ''__iter__'')
            (Some summer_message) running_server)))))
       = [result_response None]"
proof -
  have h1: "fst (call_module_method example_name (\<lambda>_. None) ''config_dict'' (Some ''__iter__'')
          (Some summer_message) running_server) = Stream_reply ''summer_call'' None True"
    by (simp add: call_defs run_defs)
  have h2: "List.map_filter relayed iterator_ticks = sequence_responses [''name'', ''version''] None"
    by (simp add: iterator_ticks_def List.map_filter_simps relayed_def sequence_responses_def
        run_defs)
  have h3: "list_all no_poll_error iterator_ticks"
    by (simp add: iterator_ticks_def no_poll_error_def run_defs)
  have h4: "logs_ok iterator_ticks"
    by (simp add: iterator_ticks_def logs_ok_def all_logfiles_def tick_files_def reads_ok_def
        run_defs)
  have ev: "fst (get_results_and_logs_generator (\<lambda>_. None) None True iterator_ticks
        (snd (snd (call_module_method example_name (\<lambda>_. None) ''config_dict'' (Some ''__iter__'')
          (Some summer_message) running_server))))
       = [stream_response ''name'', stdout_response [''Hello from the cluster! 0''],
          stream_response ''version'', result_response None,
          stdout_response [''Hello from the cluster! 1'']]"
    by (simp add: iterator_ticks_def call_defs run_defs)
  from lazy_sequence_streams_in_order [OF h1 h2 h3 h4] h1 h2 h3 h4 ev
  show ?thesis by simp
qed

subsection \<open>Calls that raise\<close>

lemma relayed_terminal_stream:
  assumes cm: "fst (call_module_method gen g module method msg s) = Stream_reply key env sl"
    and nc: "list_all (\<lambda>t. \<not> closing t) pre" and lo: "logs_ok (pre @ [t])"
    and x: "ray_get t = Inr (Some x)" "output_type x \<noteq> RESULT_STREAM"
  shows "\<exists>ys zs. fst (get_results_and_logs_generator g env sl (pre @ t # rest)
                  (snd (snd (call_module_method gen g module method msg s))))
               = ys @ x # zs
             \<and> list_all is_nonterminal ys \<and> no_log_batches ys = List.map_filter relayed pre
             \<and> (zs = [] \<or> (\<exists>ls. zs = [stdout_response ls]))"
    and "fst (snd (get_results_and_logs_generator g env sl (pre @ t # rest)
                  (snd (snd (call_module_method gen g module method msg s))))) = Closed"
proof -
  let ?s = "snd (snd (call_module_method gen g module method msg s))"
  let ?F = "all_logfiles (pre @ [t])"
  have "call_module_method gen g module method msg s
          = (Stream_reply key env sl, fst (snd (call_module_method gen g module method msg s)), ?s)"
    using cm by (metis prod.collapse)
  from call_module_method_registers(1) [OF this] obtain a where
    reg: "env_servlets ?s (or_base env) = Some a" by blast
  have v: "valid_ref None" by (simp add: valid_ref_def)
  have okall: "list_all (reads_ok ?F) (pre @ [t])"
    and cov: "\<forall>u\<in>set (pre @ [t]). set (tick_files u) \<subseteq> set ?F"
    using logs_ok_covered [OF lo] by simp_all
  have okpre: "list_all (reads_ok ?F) pre" and covpre: "\<forall>u\<in>set pre. set (tick_files u) \<subseteq> set ?F"
    and okt: "reads_ok ?F t" and covt: "set (tick_files t) \<subseteq> set ?F"
    using okall cov by (simp_all add: list_all_iff)
  from results_loop_prefix [OF nc okpre _ covpre reg v, of "[]" g sl]
  obtain ys r' fs1 s1 where v1: "valid_ref r'" and e1: "env_servlets s1 = env_servlets ?s"
    and f1: "set fs1 \<subseteq> set ?F"
    and y: "no_log_batches ys = List.map_filter relayed pre" and n: "list_all is_nonterminal ys"
    and rec: "\<forall>ts. results_loop g env sl None [] (pre @ ts) ?s =
                 (case results_loop g env sl r' fs1 ts s1 of
                    (zs, en, fs', s') \<Rightarrow> (ys @ zs, en, fs', s'))" by auto
  have reg1: "env_servlets s1 (or_base env) = Some a" using e1 reg by simp
  from results_loop_final [OF reg1 v1 x okt f1 covt, of g sl rest]
  obtain zs where z: "fst (results_loop g env sl r' fs1 (t # rest) s1) = x # zs"
    and zs: "zs = [] \<or> (\<exists>ls. ls \<noteq> [] \<and> zs = [stdout_response ls])"
    and cl: "fst (snd (results_loop g env sl r' fs1 (t # rest) s1)) = Closed" by blast
  from rec have "results_loop g env sl None [] (pre @ t # rest) ?s =
                 (case results_loop g env sl r' fs1 (t # rest) s1 of
                    (zs, en, fs', s') \<Rightarrow> (ys @ zs, en, fs', s'))" by blast
  with z cl have a: "fst (results_loop g env sl None [] (pre @ t # rest) ?s) = ys @ x # zs"
    and b: "fst (snd (results_loop g env sl None [] (pre @ t # rest) ?s)) = Closed"
    by (auto split: prod.splits)
  from a y n zs show "\<exists>ys zs. fst (get_results_and_logs_generator g env sl (pre @ t # rest) ?s)
               = ys @ x # zs
             \<and> list_all is_nonterminal ys \<and> no_log_batches ys = List.map_filter relayed pre
             \<and> (zs = [] \<or> (\<exists>ls. zs = [stdout_response ls]))"
    unfolding get_results_and_logs_generator_def by blast
  from b show "fst (snd (get_results_and_logs_generator g env sl (pre @ t # rest) ?s)) = Closed"
    unfolding get_results_and_logs_generator_def .
qed

lemma call_module_method_remote:
  assumes "remote m"
    and "py_or (msg_key m)
           (Some (gen (default_prefix module (if method = Some ''None'' then None else method))))
         = Some key"
  shows "fst (call_module_method gen g module method (Some m) s)
           = Key_reply \<lparr>resp_data = Some (Pickled key), resp_error = None,
                        resp_traceback = None, output_type = RESULT\<rparr>"
  using assms by (simp add: call_module_method_def Let_def split: prod.splits)

lemma one_terminal_after_nonterminals:
  assumes "list_all is_nonterminal ys" and "is_terminal x"
    and "zs = [] \<or> (\<exists>ls. zs = [stdout_response ls])"
  shows "filter is_terminal (ys @ x # zs) = [x]"
    and "filter (\<lambda>r. output_type r = RESULT) ys = []"
proof -
  have y: "filter is_terminal ys = []"
    using assms(1) by (simp add: terminal_or_not list_all_iff filter_empty_conv)
  have z: "filter is_terminal zs = []"
    using assms(3) by (auto simp: terminal_or_not)
  from y z assms(2) show "filter is_terminal (ys @ x # zs) = [x]" by simp
  show "filter (\<lambda>r. output_type r = RESULT) ys = []"
    using assms(1) by (auto simp: is_nonterminal_def list_all_iff filter_empty_conv)
qed

text \<open>
  Claim C4, the claim as stated fails: with \<open>remote\<close> set, \<open>call_module_method\<close> submits the
  call and answers at once with a Response of type \<open>RESULT\<close> that carries the key. The
  callable has not run yet, so the answer is this \<open>RESULT\<close> also when it goes on to raise.
  And an exception that reaches the poll as \<open>GetTimeoutError\<close> is taken for the timeout:
  the passes yield nothing for it and the stream does not end.
\<close>

theorem remote_call_counterexample:
  "fst (call_module_method example_name (\<lambda>_. None) ''summer'' (Some ''__call__'')
          (Some (summer_message\<lparr>remote := True\<rparr>)) running_server)
     = Key_reply \<lparr>resp_data = Some (Pickled ''summer_call''), resp_error = None,
                  resp_traceback = None, output_type = RESULT\<rparr>
   \<and> fst (get_results_and_logs_generator (\<lambda>_. None) None True
          [quiet_tick (Inl GetTimeoutError), quiet_tick (Inl GetTimeoutError)] running_server) = []
   \<and> fst (snd (get_results_and_logs_generator (\<lambda>_. None) None True
          [quiet_tick (Inl GetTimeoutError), quiet_tick (Inl GetTimeoutError)] running_server))
       = Polling"
  by (simp add: call_defs run_defs)

text \<open>
  Claim C4, amended. A call is streamed (\<open>remote\<close> not set), the passes before the failure
  end nothing and their log reads do not fail. When the poll then raises an exception
  other than \<open>GetTimeoutError\<close>, the stream closes and is Responses of type \<open>RESULT_STREAM\<close>
  or \<open>STDOUT\<close> followed by the one \<open>EXCEPTION\<close> Response that carries the exception and
  its trace. When the poll instead hands out the failure as a Response of type
  \<open>EXCEPTION\<close> and the log reads of that pass do not fail either, the stream closes and is
  such Responses, then that one \<open>EXCEPTION\<close> Response, then nothing or one batch of log
  lines. In both cases the \<open>EXCEPTION\<close> Response is the only terminal Response: the stream
  holds no \<open>RESULT\<close>. Whatever the passes, the generator never ends with an exception of its
  own. When a servlet method called with \<open>block=True\<close> raises, \<open>call_in_env_servlet\<close>
  returns the \<open>EXCEPTION\<close> Response that carries the exception and its trace. With \<open>remote\<close>
  set, \<open>call_module_method\<close> answers with the \<open>RESULT\<close> Response that carries the key.
\<close>

theorem raising_call_yields_one_exception:
  assumes "fst (call_module_method gen g module method msg s) = Stream_reply key env sl"
    and "list_all (\<lambda>t. \<not> closing t) pre"
  shows "(ray_get t = Inl e \<and> e \<noteq> GetTimeoutError \<and> logs_ok pre \<longrightarrow>
           (\<exists>ys. fst (get_results_and_logs_generator g env sl (pre @ t # rest)
                    (snd (snd (call_module_method gen g module method msg s))))
                 = ys @ [exception_response e]
               \<and> list_all is_nonterminal ys)
           \<and> fst (snd (get_results_and_logs_generator g env sl (pre @ t # rest)
                    (snd (snd (call_module_method gen g module method msg s))))) = Closed
           \<and> filter is_terminal (fst (get_results_and_logs_generator g env sl (pre @ t # rest)
                    (snd (snd (call_module_method gen g module method msg s)))))
               = [exception_response e])
       \<and> (ray_get t = Inr (Some x) \<and> output_type x = EXCEPTION \<and> logs_ok (pre @ [t]) \<longrightarrow>
           (\<exists>ys zs. fst (get_results_and_logs_generator g env sl (pre @ t # rest)
                    (snd (snd (call_module_method gen g module method msg s))))
                 = ys @ x # zs
               \<and> list_all is_nonterminal ys
               \<and> (zs = [] \<or> (\<exists>ls. zs = [stdout_response ls])))
           \<and> fst (snd (get_results_and_logs_generator g env sl (pre @ t # rest)
                    (snd (snd (call_module_method gen g module method msg s))))) = Closed
           \<and> filter is_terminal (fst (get_results_and_logs_generator g env sl (pre @ t # rest)
                    (snd (snd (call_module_method gen g module method msg s)))))
               = [x])
       \<and> resp_error (exception_response e) = Some e
       \<and> resp_traceback (exception_response e) = Some e
       \<and> output_type (exception_response e) = EXCEPTION
       \<and> fst (snd (get_results_and_logs_generator g2 env2 sl2 ticks2 s2)) \<noteq> Raised e2
       \<and> (get_env_servlet (target_env g3 env3 lookup_name) create (register_activity s3)
             = (Inr a, s4) \<and> servlet_method a s4 = (Inl e, s5) \<longrightarrow>
           call_in_env_servlet g3 servlet_method env3 create lookup_name True s3
             = (Failure (exception_response e), register_activity s5))
       \<and> (remote m
           \<and> py_or (msg_key m)
                (Some (gen4 (default_prefix module4
                   (if method4 = Some ''None'' then None else method4)))) = Some key4 \<longrightarrow>
           fst (call_module_method gen4 g4 module4 method4 (Some m) s6)
             = Key_reply \<lparr>resp_data = Some (Pickled key4), resp_error = None,
                          resp_traceback = None, output_type = RESULT\<rparr>)"
proof -
  let ?ys = "fst (get_results_and_logs_generator g env sl (pre @ t # rest)
                  (snd (snd (call_module_method gen g module method msg s))))"
  let ?en = "fst (snd (get_results_and_logs_generator g env sl (pre @ t # rest)
                  (snd (snd (call_module_method gen g module method msg s)))))"
  have raise: "(\<exists>ys. ?ys = ys @ [exception_response e] \<and> list_all is_nonterminal ys)
      \<and> ?en = Closed \<and> filter is_terminal ?ys = [exception_response e]"
    if h: "ray_get t = Inl e" "e \<noteq> GetTimeoutError" "logs_ok pre"
  proof -
    from raising_stream(1) [OF assms h(3) h(1,2), of rest] obtain ys where
      ys: "?ys = ys @ [exception_response e]" and n: "list_all is_nonterminal ys" by blast
    from one_terminal_after_nonterminals(1) [OF n, of "exception_response e" "[]"] ys
    have "filter is_terminal ?ys = [exception_response e]" by simp
    with ys n raising_stream(2) [OF assms h(3) h(1,2), of rest] show ?thesis by blast
  qed
  have relay: "(\<exists>ys zs. ?ys = ys @ x # zs \<and> list_all is_nonterminal ys
         \<and> (zs = [] \<or> (\<exists>ls. zs = [stdout_response ls])))
      \<and> ?en = Closed \<and> filter is_terminal ?ys = [x]"
    if h: "ray_get t = Inr (Some x)" "output_type x = EXCEPTION" "logs_ok (pre @ [t])"
  proof -
    from h(2) have nx: "output_type x \<noteq> RESULT_STREAM" and tx: "is_terminal x"
      by (simp_all add: is_terminal_def)
    from relayed_terminal_stream(1) [OF assms h(3) h(1) nx, of rest] obtain ys zs where
      ys: "?ys = ys @ x # zs" and n: "list_all is_nonterminal ys"
      and zs: "zs = [] \<or> (\<exists>ls. zs = [stdout_response ls])" by blast
    from one_terminal_after_nonterminals(1) [OF n tx zs] ys
    have "filter is_terminal ?ys = [x]" by simp
    with ys n zs relayed_terminal_stream(2) [OF assms h(3) h(1) nx, of rest] show ?thesis by blast
  qed
  have blk: "get_env_servlet (target_env g3 env3 lookup_name) create (register_activity s3)
             = (Inr a, s4) \<and> servlet_method a s4 = (Inl e, s5) \<longrightarrow>
           call_in_env_servlet g3 servlet_method env3 create lookup_name True s3
             = (Failure (exception_response e), register_activity s5)"
    using blocking_call_raises [of g3 env3 lookup_name create s3 a s4 servlet_method e s5] by blast
  have rem: "remote m
           \<and> py_or (msg_key m)
                (Some (gen4 (default_prefix module4
                   (if method4 = Some ''None'' then None else method4)))) = Some key4 \<longrightarrow>
           fst (call_module_method gen4 g4 module4 method4 (Some m) s6)
             = Key_reply \<lparr>resp_data = Some (Pickled key4), resp_error = None,
                          resp_traceback = None, output_type = RESULT\<rparr>"
    using call_module_method_remote [of m gen4 module4 method4 key4 g4 s6] by blast
  have exc: "resp_error (exception_response e) = Some e
       \<and> resp_traceback (exception_response e) = Some e
       \<and> output_type (exception_response e) = EXCEPTION"
    by (simp add: exception_response_def)
  from raise relay exc blk rem generator_never_raises [of g2 env2 sl2 ticks2 s2 e2]
  show ?thesis by blast
qed

theorem raising_call_yields_one_exception_witness:
  "fst (call_module_method example_name (\<lambda>_. None) ''summer'' (Some ''__call__'')
          (Some summer_message) running_server) = Stream_reply ''summer_call'' None True
   \<and> list_all (\<lambda>t. \<not> closing t) failing_ticks \<and> logs_ok failing_ticks
   \<and> fst (get_results_and_logs_generator (\<lambda>_. None) None True
        (failing_ticks @ logging_tick (Inl (OtherError ''ZeroDivisionError'')) [] # [])
        (snd (snd (call_module_method example_name (\<lambda>_. None) ''summer'' (Some ''__call__'')
          (Some summer_message) running_server))))
       = [stream_response ''5'', stdout_response [''Hello from the cluster! 0''],
          exception_response (OtherError ''ZeroDivisionError'')]
   \<and> filter is_terminal
        (fst (get_results_and_logs_generator (\<lambda>_. None) None True
          (failing_ticks @ logging_tick (Inl (OtherError ''ZeroDivisionError'')) [] # [])
          (snd (snd (call_module_method example_name (\<lambda>_. None) ''summer'' (Some ''__call__'')
            (Some summer_message) running_server)))))
       = [exception_response (OtherError ''ZeroDivisionError'')]
   \<and> logs_ok (failing_ticks @
        [logging_tick (Inr (Some (exception_response (OtherError ''ZeroDivisionError''))))
           [''Traceback (most recent call last):'']])
   \<and> fst (get_results_and_logs_generator (\<lambda>_. None) None True
        (failing_ticks @
           logging_tick (Inr (Some (exception_response (OtherError ''ZeroDivisionError''))))
             [''Traceback (most recent call last):''] # [])
        (snd (snd (call_module_method example_name (\<lambda>_. None) ''summer'' (Some ''__call__'')
          (Some summer_message) running_server))))
       = [stream_response ''5'', stdout_response [''Hello from the cluster! 0''],
          exception_response (OtherError ''ZeroDivisionError''),
          stdout_response [''Traceback (most recent call last):'']]
   \<and> filter is_terminal
        (fst (get_results_and_logs_generator (\<lambda>_. None) None True
          (failing_ticks @
             logging_tick (Inr (Some (exception_response (OtherError ''ZeroDivisionError''))))
               [''Traceback (most recent call last):''] # [])
          (snd (snd (call_module_method example_name (\<lambda>_. None) ''summer'' (Some ''__call__'')
            (Some summer_message) running_server)))))
       = [exception_response (OtherError ''ZeroDivisionError'')]
   \<and> call_in_env_servlet (\<lambda>_. None) (\<lambda>a s. (Inl (OtherError ''ZeroDivisionError''), s)) None
        True (Some ''summer'') True running_server
       = (Failure (exception_response (OtherError ''ZeroDivisionError'')),
          register_activity (register_activity running_server))
   \<and> remote (summer_message\<lparr>remote := True\<rparr>)
   \<and> fst (call_module_method example_name (\<lambda>_. None) ''summer'' (Some ''__call__'')
          (Some (summer_message\<lparr>remote := True\<rparr>)) running_server)
       = Key_reply \<lparr>resp_data = Some (Pickled ''summer_call''), resp_error = None,
                    resp_traceback = None, output_type = RESULT\<rparr>"
proof -
  let ?e = "OtherError ''ZeroDivisionError''"
  let ?t1 = "logging_tick (Inl ?e) []"
  let ?t2 = "logging_tick (Inr (Some (exception_response ?e)))
               [''Traceback (most recent call last):'']"
  let ?s = "snd (snd (call_module_method example_name (\<lambda>_. None) ''summer'' (Some ''__call__'')
          (Some summer_message) running_server))"
  have h1: "fst (call_module_method example_name (\<lambda>_. None) ''summer'' (Some ''__call__'')
          (Some summer_message) running_server) = Stream_reply ''summer_call'' None True"
    by (simp add: call_defs run_defs)
  have h2: "list_all (\<lambda>t. \<not> closing t) failing_ticks"
    by (simp add: failing_ticks_def closing_def run_defs)
  have h3: "logs_ok failing_ticks"
    by (simp add: failing_ticks_def logs_ok_def all_logfiles_def tick_files_def reads_ok_def
        run_defs)
  have h4: "ray_get ?t1 = Inl ?e" by (simp add: logging_tick_def)
  have h5: "?e \<noteq> GetTimeoutError" by simp
  have h6: "logs_ok (failing_ticks @ [?t2])"
    by (simp add: failing_ticks_def logs_ok_def all_logfiles_def tick_files_def reads_ok_def
        run_defs)
  have h7: "ray_get ?t2 = Inr (Some (exception_response ?e))" by (simp add: logging_tick_def)
  have h8: "output_type (exception_response ?e) = EXCEPTION" by (simp add: exception_response_def)
  have ev1: "fst (get_results_and_logs_generator (\<lambda>_. None) None True
        (failing_ticks @ ?t1 # []) ?s)
       = [stream_response ''5'', stdout_response [''Hello from the cluster! 0''],
          exception_response ?e]"
    by (simp add: failing_ticks_def call_defs run_defs)
  have ev2: "fst (get_results_and_logs_generator (\<lambda>_. None) None True
        (failing_ticks @ ?t2 # []) ?s)
       = [stream_response ''5'', stdout_response [''Hello from the cluster! 0''],
          exception_response ?e, stdout_response [''Traceback (most recent call last):'']]"
    by (simp add: failing_ticks_def call_defs run_defs)
  have g: "get_env_servlet (target_env (\<lambda>_. None) None (Some ''summer'')) True
             (register_activity running_server) = (Inr 0, register_activity running_server)"
    by (simp add: run_defs)
  have r1: "remote (summer_message\<lparr>remote := True\<rparr>)" by simp
  have r2: "py_or (msg_key (summer_message\<lparr>remote := True\<rparr>))
        (Some (example_name (default_prefix ''summer''
           (if Some ''__call__'' = Some ''None'' then None else Some ''__call__''))))
      = Some ''summer_call''"
    by (simp add: py_or_def summer_message_def)
  note th1 = raising_call_yields_one_exception [OF h1 h2,
      where t = ?t1 and e = ?e and rest = "[]" and ?g3.0 = "\<lambda>_. None" and ?env3.0 = None
        and lookup_name = "Some ''summer''" and create = True and ?s3.0 = running_server
        and a = 0 and ?s4.0 = "register_activity running_server"
        and servlet_method = "\<lambda>a s. (Inl (OtherError ''ZeroDivisionError''), s)"
        and ?s5.0 = "register_activity running_server"
        and m = "summer_message\<lparr>remote := True\<rparr>" and ?gen4.0 = example_name
        and ?module4.0 = "''summer''" and ?method4.0 = "Some ''__call__''"
        and ?key4.0 = "''summer_call''" and ?g4.0 = "\<lambda>_. None" and ?s6.0 = running_server]
  note th2 = raising_call_yields_one_exception [OF h1 h2,
      where t = ?t2 and x = "exception_response ?e" and e = ?e and rest = "[]"]
  from th1 h3 h4 h5 have a1: "filter is_terminal
        (fst (get_results_and_logs_generator (\<lambda>_. None) None True (failing_ticks @ ?t1 # []) ?s))
       = [exception_response ?e]" by blast
  have a2: "filter is_terminal
        (fst (get_results_and_logs_generator (\<lambda>_. None) None True (failing_ticks @ ?t2 # []) ?s))
       = [exception_response ?e]"
    by (rule th2 [THEN conjunct2, THEN conjunct1, rule_format, OF conjI [OF h7 conjI [OF h8 h6]],
          THEN conjunct2, THEN conjunct2])
  from th1 g have a3: "call_in_env_servlet (\<lambda>_. None) (\<lambda>a s. (Inl ?e, s)) None
        True (Some ''summer'') True running_server
       = (Failure (exception_response ?e), register_activity (register_activity running_server))"
    by blast
  from th1 r1 r2 have a4: "fst (call_module_method example_name (\<lambda>_. None) ''summer''
          (Some ''__call__'') (Some (summer_message\<lparr>remote := True\<rparr>)) running_server)
       = Key_reply \<lparr>resp_data = Some (Pickled ''summer_call''), resp_error = None,
                    resp_traceback = None, output_type = RESULT\<rparr>" by blast
  from h1 h2 h3 h6 ev1 ev2 a1 a2 a3 a4 r1 show ?thesis by blast
qed

subsection \<open>The timeout of the poll\<close>

text \<open>
  Claim C8. A pass whose poll times out while a reference is outstanding yields exactly
  what a pass with no result yet yields: it goes to the log flush, keeps the reference,
  and goes round again (unless the flush itself fails). And no Response of any stream
  comes from the timeout: each yielded Response is one the result source handed out, or
  a batch of log lines, or the \<open>EXCEPTION\<close> Response of an exception other than the timeout.
\<close>

theorem poll_timeout_is_internal:
  "(ray_get t = Inl GetTimeoutError \<and> fst (issue g env r s) = ObjectRef a \<longrightarrow>
      loop_pass g env sl r fs t s =
        (case flush_logs sl t fs of
           (Inl e, fs') \<Rightarrow> Stop [exception_response e] fs' (snd (issue g env r s))
         | (Inr ls, fs') \<Rightarrow>
             Again (if ls \<noteq> [] then [stdout_response ls] else []) (Some (ObjectRef a)) fs'
               (snd (issue g env r s)))
      \<and> pass_yielded (loop_pass g env sl r fs t s)
          = pass_yielded (loop_pass g env sl r fs (t\<lparr>ray_get := Inr None\<rparr>) s))
   \<and> list_all (origin_ok (List.map_filter relayed ticks))
        (fst (get_results_and_logs_generator g2 env2 sl2 ticks s2))"
  using timeout_pass [of t g env r s a sl fs] results_loop_origin [of ticks g2 env2 sl2 None "[]" s2]
  by (simp add: get_results_and_logs_generator_def)

theorem poll_timeout_is_internal_witness:
  "ray_get (logging_tick (Inl GetTimeoutError) [''Hello from the cluster! 0'']) = Inl GetTimeoutError
   \<and> fst (issue (\<lambda>_. None) None None running_server) = ObjectRef 0
   \<and> pass_yielded (loop_pass (\<lambda>_. None) None True None []
        (logging_tick (Inl GetTimeoutError) [''Hello from the cluster! 0'']) running_server)
       = [stdout_response [''Hello from the cluster! 0'']]
   \<and> pass_yielded (loop_pass (\<lambda>_. None) None True None []
        ((logging_tick (Inl GetTimeoutError) [''Hello from the cluster! 0''])\<lparr>ray_get := Inr None\<rparr>)
        running_server)
       = [stdout_response [''Hello from the cluster! 0'']]
   \<and> fst (get_results_and_logs_generator (\<lambda>_. None) None True example_ticks running_server)
       = [stream_response ''5'', stdout_response [''Hello from the cluster! 0''],
          result_response (Some ''13''), stdout_response [''Hello from the cluster! 1'']]
   \<and> list_all (origin_ok (List.map_filter relayed example_ticks))
        (fst (get_results_and_logs_generator (\<lambda>_. None) None True example_ticks running_server))"
proof -
  have h1: "ray_get (logging_tick (Inl GetTimeoutError) [''Hello from the cluster! 0''])
              = Inl GetTimeoutError" by (simp add: logging_tick_def)
  have h2: "fst (issue (\<lambda>_. None) None None running_server) = ObjectRef 0"
    by (simp add: run_defs submitted_def)
  have ev1: "pass_yielded (loop_pass (\<lambda>_. None) None True None []
        (logging_tick (Inl GetTimeoutError) [''Hello from the cluster! 0'']) running_server)
       = [stdout_response [''Hello from the cluster! 0'']]"
    by (simp add: run_defs submitted_def)
  have ev2: "fst (get_results_and_logs_generator (\<lambda>_. None) None True example_ticks running_server)
       = [stream_response ''5'', stdout_response [''Hello from the cluster! 0''],
          result_response (Some ''13''), stdout_response [''Hello from the cluster! 1'']]"
    by (simp add: example_ticks_def run_defs)
  from poll_timeout_is_internal [of "logging_tick (Inl GetTimeoutError) [''Hello from the cluster! 0'']"
      "\<lambda>_. None" None None running_server 0 True "[]" example_ticks "\<lambda>_. None" None True
      running_server] h1 h2 ev1 ev2
  show ?thesis by auto
qed

subsection \<open>Streams without logs\<close>

lemmas fetch_defs =
  get_object_and_logs_generator_def fetch_pass_def fetch_logfiles_def servlet_get_def
  put_object_def servlet_put_object_def example_unpickle_def list_message_def
  stored_server_def fetch_message_def fetch_logging_tick_def

text \<open>
  Claim C10, the claim as stated fails for an object fetch: \<open>_get_object_and_logs_generator\<close>
  never reads the field \<open>stream_logs\<close> of the Message, it takes the flag from the pair
  \<open>(key, stream_logs)\<close> unpickled from \<open>message.data\<close>. Here the Message has \<open>stream_logs\<close>
  false and a payload that asks for the logs, and the stream starts with a \<open>STDOUT\<close>
  Response.
\<close>

theorem fetch_ignores_message_flag_counterexample:
  "stream_logs fetch_message = False
   \<and> fst (get_object_and_logs_generator (\<lambda>_. None) example_unpickle fetch_message
        [fetch_logging_tick [''stored'']] stored_server)
       = [stdout_response [''stored''], result_response (Some ''[5, 7, 9]'')]
   \<and> output_type (stdout_response [''stored'']) = STDOUT"
  by (simp add: fetch_defs run_defs)

text \<open>
  Claim C10, amended. A call is streamed with the \<open>stream_logs\<close> of its Message. When that
  flag is false and the result source hands out no Response of type \<open>STDOUT\<close>, the stream of
  the call holds no \<open>STDOUT\<close> Response and no log file is open when it ends. An object
  fetch takes the flag from the payload: when the pair unpickled from \<open>message.data\<close> has
  the flag false, its stream holds no \<open>STDOUT\<close> Response and no log file is opened.
\<close>

theorem no_logs_without_stream_logs:
  "(fst (call_module_method gen g module method (Some m) s) = Stream_reply key env sl \<longrightarrow>
      sl = stream_logs m)
   \<and> (relays_no_stdout ticks \<longrightarrow>
        list_all not_stdout (fst (get_results_and_logs_generator g env False ticks s2))
        \<and> fst (snd (snd (get_results_and_logs_generator g env False ticks s2))) = [])
   \<and> (unpickle (msg_data m2) = Inr (key2, False) \<longrightarrow>
        list_all not_stdout (fst (get_object_and_logs_generator g2 unpickle m2 fticks s3))
        \<and> fst (snd (snd (get_object_and_logs_generator g2 unpickle m2 fticks s3))) = [])"
proof -
  have a: "fst (call_module_method gen g module method (Some m) s) = Stream_reply key env sl \<Longrightarrow>
      sl = stream_logs m"
  proof -
    assume "fst (call_module_method gen g module method (Some m) s) = Stream_reply key env sl"
    then have "call_module_method gen g module method (Some m) s
          = (Stream_reply key env sl, fst (snd (call_module_method gen g module method (Some m) s)),
             snd (snd (call_module_method gen g module method (Some m) s)))"
      by (metis prod.collapse)
    from call_module_method_registers(2) [OF this] show ?thesis by simp
  qed
  have b: "relays_no_stdout ticks \<Longrightarrow>
        list_all not_stdout (fst (get_results_and_logs_generator g env False ticks s2))
        \<and> fst (snd (snd (get_results_and_logs_generator g env False ticks s2))) = []"
    unfolding get_results_and_logs_generator_def by (rule results_loop_silent)
  have c: "unpickle (msg_data m2) = Inr (key2, False) \<Longrightarrow>
        list_all not_stdout (fst (get_object_and_logs_generator g2 unpickle m2 fticks s3))
        \<and> fst (snd (snd (get_object_and_logs_generator g2 unpickle m2 fticks s3))) = []"
    using fetch_loop_silent [of g2 "msg_env m2" key2 None fticks s3]
    by (simp add: get_object_and_logs_generator_def)
  from a b c show ?thesis by blast
qed

theorem no_logs_without_stream_logs_witness:
  "fst (call_module_method example_name (\<lambda>_. None) ''summer'' (Some ''__call__'')
          (Some (summer_message\<lparr>stream_logs := False\<rparr>)) running_server)
     = Stream_reply ''summer_call'' None False
   \<and> relays_no_stdout example_ticks
   \<and> get_results_and_logs_generator (\<lambda>_. None) None False example_ticks running_server
       = ([stream_response ''5'', result_response (Some ''13'')], Closed, [],
          running_server\<lparr>activity := activity running_server + 3\<rparr>)
   \<and> list_all not_stdout
        (fst (get_results_and_logs_generator (\<lambda>_. None) None False example_ticks running_server))
   \<and> example_unpickle (msg_data (fetch_message\<lparr>msg_data := Some ''my_list''\<rparr>))
       = Inr (''my_list'', False)
   \<and> fst (get_object_and_logs_generator (\<lambda>_. None) example_unpickle
        (fetch_message\<lparr>msg_data := Some ''my_list''\<rparr>) [fetch_logging_tick [''stored'']]
        stored_server)
       = [result_response (Some ''[5, 7, 9]'')]
   \<and> fst (snd (snd (get_object_and_logs_generator (\<lambda>_. None) example_unpickle
        (fetch_message\<lparr>msg_data := Some ''my_list''\<rparr>) [fetch_logging_tick [''stored'']]
        stored_server))) = []"
proof -
  have h1: "fst (call_module_method example_name (\<lambda>_. None) ''summer'' (Some ''__call__'')
          (Some (summer_message\<lparr>stream_logs := False\<rparr>)) running_server)
     = Stream_reply ''summer_call'' None False"
    by (simp add: call_defs run_defs)
  have h2: "relays_no_stdout example_ticks"
    by (simp add: relays_no_stdout_def example_ticks_def relayed_def run_defs)
  have h3: "example_unpickle (msg_data (fetch_message\<lparr>msg_data := Some ''my_list''\<rparr>))
       = Inr (''my_list'', False)"
    by (simp add: example_unpickle_def)
  have ev1: "get_results_and_logs_generator (\<lambda>_. None) None False example_ticks running_server
       = ([stream_response ''5'', result_response (Some ''13'')], Closed, [],
          running_server\<lparr>activity := activity running_server + 3\<rparr>)"
    by (simp add: example_ticks_def run_defs submitted_def)
  have ev2: "fst (get_object_and_logs_generator (\<lambda>_. None) example_unpickle
        (fetch_message\<lparr>msg_data := Some ''my_list''\<rparr>) [fetch_logging_tick [''stored'']]
        stored_server)
       = [result_response (Some ''[5, 7, 9]'')]"
    by (simp add: fetch_defs run_defs)
  from no_logs_without_stream_logs [of example_name "\<lambda>_. None" "''summer''" "Some ''__call__''"
      "summer_message\<lparr>stream_logs := False\<rparr>" running_server "''summer_call''" None False
      example_ticks running_server example_unpickle
      "fetch_message\<lparr>msg_data := Some ''my_list''\<rparr>" "''my_list''" "\<lambda>_. None"
      "[fetch_logging_tick [''stored'']]" stored_server] h1 h2 h3 ev1 ev2
  show ?thesis by auto
qed

subsection \<open>The Message\<close>

lemmas route_defs =
  install_def put_resource_def run_module_def rename_object_def delete_obj_def
  get_run_object_def cancel_run_def add_secrets_def check_server_def get_object_def
  put_object_def

lemma call_module_method_message:
  "fst (snd (call_module_method gen g module method (Some m) s))
     = m\<lparr>msg_key := py_or (msg_key m)
           (Some (gen (default_prefix module (if method = Some ''None'' then None else method))))\<rparr>"
  by (simp add: call_module_method_def Let_def split: prod.splits option.splits)

lemma py_or_truthy: "truthy a \<Longrightarrow> py_or a b = a"
  by (simp add: py_or_def)

text \<open>
  Claim C9, the claim as stated fails: \<open>call_module_method\<close> assigns \<open>message.key\<close> when the
  Message came without a key. Here the Message has no key before the route and the
  generated name after it.
\<close>

theorem key_assigned_counterexample:
  "msg_key (summer_message\<lparr>msg_key := None\<rparr>) = None
   \<and> msg_key (fst (serve example_name (\<lambda>_. None) example_servlet
        (Call_module_method ''summer'' (Some ''__call__'')) (summer_message\<lparr>msg_key := None\<rparr>)
        running_server))
       = Some ''summer_20231104_120000_000''"
  by (simp add: call_module_method_message py_or_def default_prefix_def example_name_def
      summer_message_def)

text \<open>
  Claim C9, amended. Every route leaves the Message as it was, but for
  \<open>call_module_method\<close>, which sets the key of a Message that has none (absent or empty) to
  the generated default name: the fields \<open>env\<close>, \<open>data\<close>, \<open>stream_logs\<close>, \<open>save\<close> and \<open>remote\<close>
  are never modified, and a key that is present is never modified.
\<close>

theorem message_changes_only_absent_key:
  "fst (serve gen g servlet rq m s)
     = (case rq of
          Call_module_method module method \<Rightarrow>
            m\<lparr>msg_key := py_or (msg_key m)
              (Some (gen (default_prefix module (if method = Some ''None'' then None else method))))\<rparr>
        | _ \<Rightarrow> m)
   \<and> msg_env (fst (serve gen g servlet rq m s)) = msg_env m
   \<and> msg_data (fst (serve gen g servlet rq m s)) = msg_data m
   \<and> stream_logs (fst (serve gen g servlet rq m s)) = stream_logs m
   \<and> save (fst (serve gen g servlet rq m s)) = save m
   \<and> remote (fst (serve gen g servlet rq m s)) = remote m
   \<and> (truthy (msg_key m) \<longrightarrow> fst (serve gen g servlet rq m s) = m)"
  by (cases rq)
    (simp_all add: route_defs call_module_method_message py_or_truthy split: prod.splits sum.splits)

theorem message_changes_only_absent_key_witness:
  "truthy (msg_key summer_message)
   \<and> fst (serve example_name (\<lambda>_. None) example_servlet
        (Call_module_method ''summer'' (Some ''__call__'')) summer_message running_server)
       = summer_message
   \<and> fst (serve example_name (\<lambda>_. None) example_servlet Put_object list_message running_server)
       = list_message"
proof -
  have h: "truthy (msg_key summer_message)" by (simp add: summer_message_def)
  from message_changes_only_absent_key [of example_name "\<lambda>_. None" example_servlet
      "Call_module_method ''summer'' (Some ''__call__'')" summer_message running_server] h
  have a: "fst (serve example_name (\<lambda>_. None) example_servlet
        (Call_module_method ''summer'' (Some ''__call__'')) summer_message running_server)
       = summer_message" by blast
  have b: "fst (serve example_name (\<lambda>_. None) example_servlet Put_object list_message
        running_server) = list_message"
    by (simp add: put_object_def split: prod.splits)
  from h a b show ?thesis by blast
qed

subsection \<open>Access control\<close>

lemma permission_other:
  "(credential, r) \<noteq> (credential, e) \<Longrightarrow>
   fst (permission authority (snd (permission authority cache credential e)) credential r)
     = fst (permission authority cache credential r)"
  by (auto simp: permission_def split: option.splits)

text \<open>
  Claim C5. A credential whose level on the Environment is \<open>write\<close> is authorized to invoke
  a resource inside it, whatever its level on the resource, also none. A credential whose
  level on the Environment is \<open>read\<close> and that has no access to the resource is denied.
\<close>

theorem environment_write_grants_invoke:
  "(fst (permission authority cache credential environment) = Write_access \<longrightarrow>
      fst (authorize_invoke authority cache credential environment resource_id) = True)
   \<and> (fst (permission authority cache credential environment) = Read_access
       \<and> fst (permission authority cache credential resource_id) = No_access \<longrightarrow>
      fst (authorize_invoke authority cache credential environment resource_id) = False)"
proof -
  have a: "fst (permission authority cache credential environment) = Write_access \<Longrightarrow>
      fst (authorize_invoke authority cache credential environment resource_id) = True"
    by (auto simp: authorize_invoke_def authorize_def split: prod.splits bool.splits)
  have b: "fst (authorize_invoke authority cache credential environment resource_id) = False"
    if e: "fst (permission authority cache credential environment) = Read_access"
      and r: "fst (permission authority cache credential resource_id) = No_access"
  proof -
    from e r have "resource_id \<noteq> environment" by auto
    then have "fst (permission authority (snd (permission authority cache credential environment))
                 credential resource_id) = No_access"
      using permission_other [of credential resource_id environment authority cache] r by simp
    with e show ?thesis
      by (auto simp: authorize_invoke_def authorize_def split: prod.splits bool.splits)
  qed
  from a b show ?thesis by blast
qed

theorem environment_write_grants_invoke_witness:
  "fst (permission example_authority Map.empty ''writer'' ''cluster'') = Write_access
   \<and> fst (permission example_authority Map.empty ''writer'' ''summer'') = No_access
   \<and> fst (authorize_invoke example_authority Map.empty ''writer'' ''cluster'' ''summer'') = True
   \<and> fst (permission example_authority Map.empty ''reader'' ''cluster'') = Read_access
   \<and> fst (permission example_authority Map.empty ''reader'' ''summer'') = No_access
   \<and> fst (authorize_invoke example_authority Map.empty ''reader'' ''cluster'' ''summer'') = False"
proof -
  have h1: "fst (permission example_authority Map.empty ''writer'' ''cluster'') = Write_access"
    and h2: "fst (permission example_authority Map.empty ''writer'' ''summer'') = No_access"
    and h3: "fst (permission example_authority Map.empty ''reader'' ''cluster'') = Read_access"
    and h4: "fst (permission example_authority Map.empty ''reader'' ''summer'') = No_access"
    by (simp_all add: permission_def example_authority_def)
  from environment_write_grants_invoke [of example_authority Map.empty "''writer''" "''cluster''"
      "''summer''"]
    environment_write_grants_invoke [of example_authority Map.empty "''reader''" "''cluster''"
      "''summer''"] h1 h2 h3 h4
  show ?thesis by simp
qed

subsection \<open>The registry under concurrent calls\<close>

lemma list_all_update:
  "list_all P ps \<Longrightarrow> P p \<Longrightarrow> list_all P (ps[i := p])"
  by (auto simp: list_all_iff dest: set_update_subset_insert [THEN subsetD])

lemma thread_step_inv:
  assumes inv: "threads_inv n s0 ps s" and i: "i < length ps"
    and st: "thread_step n True (ps ! i) s = (p, s1)"
  shows "threads_inv n s0 (ps[i := p]) s1"
proof -
  from inv have all: "list_all (thread_ok n s0 s) ps"
    and b: "env_servlets s0 n = None \<longrightarrow> (\<forall>a. env_servlets s n = Some a \<longrightarrow> actors s n = Some a)"
    and a: "env_servlets s0 n \<noteq> None \<longrightarrow> env_servlets s n = env_servlets s0 n"
    and k: "actors s0 n \<noteq> None \<longrightarrow> actors s n = actors s0 n"
    and c: "constructed s = constructed s0 + (if actors s0 n = None \<and> actors s n \<noteq> None then 1 else 0)"
    by (simp_all add: threads_inv_def)
  from all i have cur: "thread_ok n s0 s (ps ! i)" by (simp add: list_all_length)
  show ?thesis
  proof (cases "ps ! i")
    case At_check
    with st a have "s1 = s" and "thread_ok n s0 s p"
      by (auto simp: thread_step_def thread_ok_def split: option.splits)
    with inv all show ?thesis by (simp add: threads_inv_def list_all_update)
  next
    case At_create
    with cur have r0: "env_servlets s0 n = None" by (simp add: thread_ok_def)
    show ?thesis
    proof (cases "actors s n")
      case (Some x)
      with At_create st have "s1 = s" and "p = At_register x"
        by (auto simp: thread_step_def ray_get_or_create_def)
      with inv all r0 Some show ?thesis by (simp add: threads_inv_def list_all_update thread_ok_def)
    next
      case None
      with At_create st have s1: "s1 = s\<lparr>actors := (actors s)(n \<mapsto> constructed s),
             constructed := constructed s + 1\<rparr>" and p: "p = At_register (constructed s)"
        by (auto simp: thread_step_def ray_get_or_create_def)
      from None b r0 have e: "env_servlets s n = None" by (cases "env_servlets s n") auto
      have "thread_ok n s0 s1 q" if "q \<in> set ps" for q
      proof -
        from all that have "thread_ok n s0 s q" by (simp add: list_all_iff)
        with None e show ?thesis by (cases q) (simp_all add: thread_ok_def s1)
      qed
      then have "list_all (thread_ok n s0 s1) ps" by (simp add: list_all_iff)
      moreover have "thread_ok n s0 s1 p" using r0 by (simp add: thread_ok_def p s1)
      moreover from None k have "actors s0 n = None" by (cases "actors s0 n") auto
      ultimately show ?thesis using e r0 c None
        by (simp add: threads_inv_def list_all_update s1)
    qed
  next
    case (At_register x)
    with cur have r0: "env_servlets s0 n = None" and ax: "actors s n = Some x"
      by (simp_all add: thread_ok_def)
    from At_register st have s1: "s1 = s\<lparr>env_servlets := (env_servlets s)(n \<mapsto> x)\<rparr>"
      and p: "p = Returned x" by (auto simp: thread_step_def)
    have "thread_ok n s0 s1 q" if "q \<in> set ps" for q
    proof -
      from all that have "thread_ok n s0 s q" by (simp add: list_all_iff)
      with b r0 ax show ?thesis by (cases q) (auto simp: thread_ok_def s1)
    qed
    then have "list_all (thread_ok n s0 s1) ps" by (simp add: list_all_iff)
    moreover have "thread_ok n s0 s1 p" by (simp add: thread_ok_def p s1)
    ultimately show ?thesis using r0 ax c k
      by (simp add: threads_inv_def list_all_update s1)
  next
    case (Returned x)
    with st have "s1 = s" and "p = Returned x" by (auto simp: thread_step_def)
    with inv Returned i show ?thesis by (simp add: list_update_same_conv [THEN iffD2])
  next
    case (Raising e)
    with cur show ?thesis by (simp add: thread_ok_def)
  qed
qed

lemma run_threads_inv:
  "threads_inv n s0 ps s \<Longrightarrow>
   threads_inv n s0 (fst (run_threads n schedule ps s)) (snd (run_threads n schedule ps s))"
proof (induction schedule arbitrary: ps s)
  case Nil
  then show ?case by simp
next
  case (Cons i schedule)
  show ?case
  proof (cases "i < length ps")
    case False
    with Cons show ?thesis by simp
  next
    case True
    obtain p s1 where st: "thread_step n True (ps ! i) s = (p, s1)"
      by (cases "thread_step n True (ps ! i) s")
    from Cons.IH [OF thread_step_inv [OF Cons.prems True st]] True st show ?thesis by simp
  qed
qed

lemma threads_inv_start: "threads_inv n s (replicate k At_check) s"
  by (auto simp: threads_inv_def list_all_iff thread_ok_def)

lemma threads_inv_returned:
  assumes "threads_inv n s0 ps s" and "Returned a \<in> set ps"
  shows "env_servlets s n = Some a"
proof -
  from assms have "thread_ok n s0 s (Returned a)" by (simp add: threads_inv_def list_all_iff)
  then show ?thesis by (simp add: thread_ok_def)
qed

lemma threads_inv_no_raise:
  assumes "threads_inv n s0 ps s"
  shows "Raising e \<notin> set ps"
proof
  assume "Raising e \<in> set ps"
  with assms have "thread_ok n s0 s (Raising e)" by (simp add: threads_inv_def list_all_iff)
  then show False by (simp add: thread_ok_def)
qed

lemma threads_inv_constructed: "threads_inv n s0 ps s \<Longrightarrow> constructed s \<le> constructed s0 + 1"
  by (simp add: threads_inv_def)

lemma one_thread_is_get_env_servlet:
  "run_threads n [0, 0, 0] [At_check] s =
     (case get_env_servlet n True s of
        (Inr a, s') \<Rightarrow> ([Returned a], s')
      | (Inl e, s') \<Rightarrow> ([Raising e], s'))"
  by (auto simp: thread_step_def get_env_servlet_def ray_get_or_create_def
      split: option.splits prod.splits)


lemma thread_step_progress:
  "steps_left (fst (thread_step n True p s)) \<le> steps_left p - 1"
  by (cases p) (auto simp: thread_step_def split: option.splits prod.splits)

lemma run_threads_length [simp]: "length (fst (run_threads n schedule ps s)) = length ps"
  by (induction schedule arbitrary: ps s) (auto split: prod.splits)

lemma run_threads_progress:
  "i < length ps \<Longrightarrow>
   steps_left (fst (run_threads n schedule ps s) ! i) \<le> steps_left (ps ! i) - count_list schedule i"
proof (induction schedule arbitrary: ps s)
  case Nil
  then show ?case by simp
next
  case (Cons j schedule)
  show ?case
  proof (cases "j < length ps")
    case False
    with Cons.prems have "j \<noteq> i" by auto
    with False Cons show ?thesis by simp
  next
    case True
    obtain p s1 where st: "thread_step n True (ps ! j) s = (p, s1)"
      by (cases "thread_step n True (ps ! j) s")
    have len: "i < length (ps[j := p])" using Cons.prems by simp
    from Cons.IH [OF len, of s1]
    have ih: "steps_left (fst (run_threads n schedule (ps[j := p]) s1) ! i)
                \<le> steps_left (ps[j := p] ! i) - count_list schedule i" .
    show ?thesis
    proof (cases "j = i")
      case True
      from thread_step_progress [of n "ps ! j" s] st have "steps_left p \<le> steps_left (ps ! j) - 1"
        by simp
      with ih True Cons.prems st \<open>j < length ps\<close> show ?thesis by simp
    next
      case False
      with ih True st show ?thesis by simp
    qed
  qed
qed

lemma steps_left_done: "steps_left p = 0 \<Longrightarrow> (\<exists>a. p = Returned a) \<or> (\<exists>e. p = Raising e)"
  by (cases p) simp_all

lemma get_env_servlet_again:
  "get_env_servlet n True (snd (get_env_servlet n True s))
     = (fst (get_env_servlet n True s), snd (get_env_servlet n True s))"
  by (auto simp: get_env_servlet_def ray_get_or_create_def split: option.splits prod.splits)

text \<open>
  Claim C6, the claim as stated fails: an Environment actor is detached, so it outlives
  the server process. A server that restarts on a runtime where the actor \<open>base\<close> lives has
  no \<open>base\<close> in \<open>env_servlets\<close>; \<open>get_env_servlet\<close> then asks the runtime with
  \<open>get_if_exists=True\<close> and is handed the living actor: it constructs none.
\<close>

theorem detached_actor_counterexample:
  "env_servlets restarted_server ''base'' = None
   \<and> fst (get_env_servlet ''base'' True restarted_server) = Inr 0
   \<and> constructed (snd (get_env_servlet ''base'' True restarted_server))
       = constructed restarted_server"
  by (simp add: restarted_server_def fresh_server_def get_env_servlet_def ray_get_or_create_def)

text \<open>
  Claim C6, amended. \<open>get_env_servlet(n, create=True)\<close> returns the registered handle when
  \<open>n\<close> is registered; otherwise it obtains the actor named \<open>n\<close> from the runtime (the living
  actor of that name if there is one, else one newly constructed actor) and registers it
  under \<open>n\<close> before returning; a second call returns the same handle and changes nothing.
  When any number of such calls interleave, whatever the schedule: no call raises, a call
  that has taken its three steps has returned, all the handles returned are the one
  registered under \<open>n\<close>, and at most one actor has been constructed. One call running alone
  through its three steps is \<open>get_env_servlet\<close>.
\<close>

theorem get_or_create_is_idempotent:
  "(env_servlets s n = Some h \<longrightarrow> get_env_servlet n True s = (Inr h, s))
   \<and> (env_servlets s n = None \<longrightarrow>
        fst (get_env_servlet n True s)
          = Inr (case actors s n of Some a \<Rightarrow> a | None \<Rightarrow> constructed s)
        \<and> env_servlets (snd (get_env_servlet n True s))
          = (env_servlets s)(n \<mapsto> (case actors s n of Some a \<Rightarrow> a | None \<Rightarrow> constructed s))
        \<and> actors (snd (get_env_servlet n True s)) n
          = Some (case actors s n of Some a \<Rightarrow> a | None \<Rightarrow> constructed s)
        \<and> constructed (snd (get_env_servlet n True s))
          = constructed s + (if actors s n = None then 1 else 0))
   \<and> get_env_servlet n True (snd (get_env_servlet n True s))
       = (fst (get_env_servlet n True s), snd (get_env_servlet n True s))
   \<and> (Returned a \<in> set (fst (run_threads n schedule (replicate k At_check) s))
       \<and> Returned b \<in> set (fst (run_threads n schedule (replicate k At_check) s)) \<longrightarrow>
        a = b \<and> env_servlets (snd (run_threads n schedule (replicate k At_check) s)) n = Some a)
   \<and> Raising e \<notin> set (fst (run_threads n schedule (replicate k At_check) s))
   \<and> (i < k \<and> 3 \<le> count_list schedule i \<longrightarrow>
        (\<exists>c. fst (run_threads n schedule (replicate k At_check) s) ! i = Returned c))
   \<and> constructed (snd (run_threads n schedule (replicate k At_check) s)) \<le> constructed s + 1
   \<and> run_threads n [0, 0, 0] [At_check] s =
        (case get_env_servlet n True s of
           (Inr c, s') \<Rightarrow> ([Returned c], s')
         | (Inl e', s') \<Rightarrow> ([Raising e'], s'))"
proof -
  let ?run = "run_threads n schedule (replicate k At_check) s"
  have inv: "threads_inv n s (fst ?run) (snd ?run)"
    by (rule run_threads_inv [OF threads_inv_start])
  have p1: "env_servlets s n = Some h \<longrightarrow> get_env_servlet n True s = (Inr h, s)"
    by (simp add: get_env_servlet_def)
  have p2: "env_servlets s n = None \<longrightarrow>
        fst (get_env_servlet n True s)
          = Inr (case actors s n of Some a \<Rightarrow> a | None \<Rightarrow> constructed s)
        \<and> env_servlets (snd (get_env_servlet n True s))
          = (env_servlets s)(n \<mapsto> (case actors s n of Some a \<Rightarrow> a | None \<Rightarrow> constructed s))
        \<and> actors (snd (get_env_servlet n True s)) n
          = Some (case actors s n of Some a \<Rightarrow> a | None \<Rightarrow> constructed s)
        \<and> constructed (snd (get_env_servlet n True s))
          = constructed s + (if actors s n = None then 1 else 0)"
    by (auto simp: get_env_servlet_def ray_get_or_create_def split: option.splits)
  have p4: "Returned a \<in> set (fst ?run) \<and> Returned b \<in> set (fst ?run) \<longrightarrow>
        a = b \<and> env_servlets (snd ?run) n = Some a"
    using threads_inv_returned [OF inv, of a] threads_inv_returned [OF inv, of b] by auto
  have p5: "Raising e \<notin> set (fst ?run)" by (rule threads_inv_no_raise [OF inv])
  have p6: "\<exists>c. fst ?run ! i = Returned c" if "i < k" and "3 \<le> count_list schedule i"
  proof -
    from run_threads_progress [of i "replicate k At_check" n schedule s] that
    have "steps_left (fst ?run ! i) = 0" by simp
    from steps_left_done [OF this] show ?thesis
    proof
      assume "\<exists>e. fst ?run ! i = Raising e"
      then obtain e' where "fst ?run ! i = Raising e'" by blast
      moreover have "i < length (fst ?run)" using that(1) by simp
      ultimately have "Raising e' \<in> set (fst ?run)" by (metis nth_mem)
      with threads_inv_no_raise [OF inv, of e'] show ?thesis by simp
    qed
  qed
  have p7: "constructed (snd ?run) \<le> constructed s + 1" by (rule threads_inv_constructed [OF inv])
  from p1 p2 get_env_servlet_again [of n s] p4 p5 p6 p7 one_thread_is_get_env_servlet [of n s]
  show ?thesis by blast
qed

theorem get_or_create_is_idempotent_witness:
  "env_servlets fresh_server ''base'' = None
   \<and> fst (get_env_servlet ''base'' True fresh_server) = Inr 0
   \<and> constructed (snd (get_env_servlet ''base'' True fresh_server)) = 1
   \<and> env_servlets (snd (get_env_servlet ''base'' True fresh_server)) ''base'' = Some 0
   \<and> fst (get_env_servlet ''base'' True (snd (get_env_servlet ''base'' True fresh_server))) = Inr 0
   \<and> fst (run_threads ''base'' [0, 1, 1, 0, 0, 1] (replicate 2 At_check) fresh_server)
       = [Returned 0, Returned 0]
   \<and> constructed (snd (run_threads ''base'' [0, 1, 1, 0, 0, 1] (replicate 2 At_check) fresh_server))
       = 1
   \<and> env_servlets (snd (run_threads ''base'' [0, 1, 1, 0, 0, 1] (replicate 2 At_check) fresh_server))
        ''base'' = Some 0"
proof -
  have h1: "env_servlets fresh_server ''base'' = None" by (simp add: fresh_server_def)
  have h2: "env_servlets (snd (get_env_servlet ''base'' True fresh_server)) ''base'' = Some 0"
    by (simp add: fresh_server_def get_env_servlet_def ray_get_or_create_def)
  have ev: "fst (run_threads ''base'' [0, 1, 1, 0, 0, 1] (replicate 2 At_check) fresh_server)
       = [Returned 0, Returned 0]"
    by (simp add: numeral_2_eq_2 thread_step_def fresh_server_def ray_get_or_create_def)
  have c: "constructed (snd (run_threads ''base'' [0, 1, 1, 0, 0, 1] (replicate 2 At_check)
        fresh_server)) = 1"
    by (simp add: numeral_2_eq_2 thread_step_def fresh_server_def ray_get_or_create_def)
  have m: "Returned 0 \<in> set (fst (run_threads ''base'' [0, 1, 1, 0, 0, 1] (replicate 2 At_check)
        fresh_server))" unfolding ev by simp
  from get_or_create_is_idempotent [of fresh_server "''base''" 0 0 "[0, 1, 1, 0, 0, 1]" 2 0
      GetTimeoutError 0] h1 h2 ev c m
  show ?thesis by (auto simp: fresh_server_def)
qed

subsection \<open>Put, then get\<close>

lemma distinct_actors_fresh: "distinct_actors fresh_server"
  by (simp add: distinct_actors_def fresh_server_def)

lemma distinct_actors_get_env_servlet:
  assumes "distinct_actors s"
  shows "distinct_actors (snd (get_env_servlet n c s))"
proof (cases "env_servlets s n")
  case (Some a)
  with assms show ?thesis by (simp add: get_env_servlet_def)
next
  case None
  show ?thesis
  proof (cases c)
    case False
    with None assms show ?thesis by (simp add: get_env_servlet_def)
  next
    case True
    show ?thesis
    proof (cases "actors s n")
      case (Some a)
      with None True assms show ?thesis
        by (auto simp: get_env_servlet_def ray_get_or_create_def distinct_actors_def)
    next
      case an: None
      from assms have lt: "\<forall>m a. actors s m = Some a \<longrightarrow> a < constructed s"
        and inj: "\<forall>m m' a. actors s m = Some a \<and> actors s m' = Some a \<longrightarrow> m = m'"
        and agree: "\<forall>m a. env_servlets s m = Some a \<longrightarrow> actors s m = Some a"
        by (simp_all add: distinct_actors_def)
      have s': "snd (get_env_servlet n c s)
          = s\<lparr>actors := (actors s)(n \<mapsto> constructed s), constructed := constructed s + 1,
              env_servlets := (env_servlets s)(n \<mapsto> constructed s)\<rparr>"
        using None True an by (simp add: get_env_servlet_def ray_get_or_create_def)
      show ?thesis unfolding s' distinct_actors_def
      proof (intro conjI allI impI)
        fix m a assume "env_servlets (s\<lparr>actors := (actors s)(n \<mapsto> constructed s),
            constructed := constructed s + 1,
            env_servlets := (env_servlets s)(n \<mapsto> constructed s)\<rparr>) m = Some a"
        with agree show "actors (s\<lparr>actors := (actors s)(n \<mapsto> constructed s),
            constructed := constructed s + 1,
            env_servlets := (env_servlets s)(n \<mapsto> constructed s)\<rparr>) m = Some a"
          by (auto split: if_splits)
      next
        fix m m' a assume "actors (s\<lparr>actors := (actors s)(n \<mapsto> constructed s),
            constructed := constructed s + 1,
            env_servlets := (env_servlets s)(n \<mapsto> constructed s)\<rparr>) m = Some a
          \<and> actors (s\<lparr>actors := (actors s)(n \<mapsto> constructed s),
            constructed := constructed s + 1,
            env_servlets := (env_servlets s)(n \<mapsto> constructed s)\<rparr>) m' = Some a"
        with inj lt show "m = m'" by (auto split: if_splits)
      next
        fix m a assume "actors (s\<lparr>actors := (actors s)(n \<mapsto> constructed s),
            constructed := constructed s + 1,
            env_servlets := (env_servlets s)(n \<mapsto> constructed s)\<rparr>) m = Some a"
        with lt show "a < constructed (s\<lparr>actors := (actors s)(n \<mapsto> constructed s),
            constructed := constructed s + 1,
            env_servlets := (env_servlets s)(n \<mapsto> constructed s)\<rparr>)"
          by (auto split: if_splits simp: less_Suc_eq)
      qed
    qed
  qed
qed

lemma distinct_actors_frame:
  "env_servlets s' = env_servlets s \<Longrightarrow> actors s' = actors s \<Longrightarrow> constructed s' = constructed s \<Longrightarrow>
   distinct_actors s' = distinct_actors s"
  by (simp add: distinct_actors_def)

lemma put_object_state:
  "snd (snd (put_object g m s))
     = (case get_env_servlet (or_base (msg_env m)) True (register_activity s) of
          (Inr a, s1) \<Rightarrow> s1\<lparr>store := (store s1)(a := (store s1 a)(msg_key m \<mapsto> msg_data m))\<rparr>
        | (Inl e, s1) \<Rightarrow> register_activity s1)"
  by (simp add: put_object_def call_in_env_servlet_def call_servlet_method_def
      servlet_put_object_def split: prod.splits sum.splits)

lemma get_env_servlet_create_returns:
  "\<exists>a. fst (get_env_servlet n True s) = Inr a
       \<and> env_servlets (snd (get_env_servlet n True s)) n = Some a"
  by (auto simp: get_env_servlet_def ray_get_or_create_def split: option.splits)

lemma distinct_actors_put_object:
  assumes "distinct_actors s"
  shows "distinct_actors (snd (snd (put_object g m s)))"
proof -
  let ?s0 = "register_activity s"
  have d0: "distinct_actors ?s0"
    using assms by (simp add: distinct_actors_def register_activity_def)
  obtain b s1 where g: "get_env_servlet (or_base (msg_env m)) True ?s0 = (Inr b, s1)"
    using get_env_servlet_create_returns [of "or_base (msg_env m)" ?s0] by (metis prod.collapse)
  from distinct_actors_get_env_servlet [OF d0, of "or_base (msg_env m)" True] g
  have d1: "distinct_actors s1" by simp
  have "snd (snd (put_object g m s))
      = s1\<lparr>store := (store s1)(b := (store s1 b)(msg_key m \<mapsto> msg_data m))\<rparr>"
    using g by (simp add: put_object_state)
  with d1 show ?thesis by (simp add: distinct_actors_def)
qed

lemma distinct_actors_init:
  assumes "distinct_actors s"
  shows "distinct_actors (HTTPServer_init s)"
proof -
  obtain b s1 where g: "get_env_servlet ''base'' True s = (Inr b, s1)"
    using get_env_servlet_create_returns [of "''base''" s] by (metis prod.collapse)
  from distinct_actors_get_env_servlet [OF assms, of "''base''" True] g
  have d1: "distinct_actors s1" by simp
  from get_env_servlet_create_returns [of "''base''" s] g
  have "env_servlets s1 ''base'' = Some b" by simp
  then have "(env_servlets s1)(''base'' \<mapsto> b) = env_servlets s1" by (rule map_upd_triv)
  with g have "HTTPServer_init s = register_activity s1"
    by (simp add: HTTPServer_init_def)
  with d1 show ?thesis by (simp add: distinct_actors_def register_activity_def)
qed

lemma distinct_actors_running: "distinct_actors running_server"
  unfolding running_server_def by (rule distinct_actors_init [OF distinct_actors_fresh])

lemma put_object_creates:
  "\<exists>a. env_servlets (snd (snd (put_object g m s))) (or_base (msg_env m)) = Some a
       \<and> store (snd (snd (put_object g m s))) a (msg_key m) = Some (msg_data m)"
  by (auto simp: put_object_def call_in_env_servlet_def call_servlet_method_def
      get_env_servlet_def ray_get_or_create_def servlet_put_object_def register_activity_def
      Let_def split: option.splits prod.splits)

lemma put_object_registered:
  assumes "env_servlets s (or_base (msg_env m)) = Some a"
  shows "env_servlets (snd (snd (put_object g m s))) = env_servlets s"
    and "store (snd (snd (put_object g m s))) a key
           = (if msg_key m = key then Some (msg_data m) else store s a key)"
  using assms
  by (auto simp: put_object_def call_in_env_servlet_def call_servlet_method_def
      get_env_servlet_def servlet_put_object_def register_activity_def)

lemma put_object_elsewhere:
  assumes d: "distinct_actors s" and reg: "env_servlets s E = Some a"
    and other: "or_base (msg_env m) \<noteq> E"
  shows "env_servlets (snd (snd (put_object g m s))) E = Some a"
    and "store (snd (snd (put_object g m s))) a = store s a"
proof -
  let ?n = "or_base (msg_env m)"
  let ?s0 = "register_activity s"
  from d have lt: "\<forall>n b. actors s n = Some b \<longrightarrow> b < constructed s"
    and inj: "\<forall>n n' b. actors s n = Some b \<and> actors s n' = Some b \<longrightarrow> n = n'"
    and agree: "\<forall>n b. env_servlets s n = Some b \<longrightarrow> actors s n = Some b"
    by (simp_all add: distinct_actors_def)
  from agree reg have aE: "actors s E = Some a" by simp
  from lt aE have alt: "a < constructed s" by blast
  obtain b s1 where g: "get_env_servlet ?n True ?s0 = (Inr b, s1)"
    using get_env_servlet_create_returns [of ?n ?s0] by (metis prod.collapse)
  have ba: "b \<noteq> a" and e1: "env_servlets s1 E = Some a" and st1: "store s1 = store s"
  proof -
    show "b \<noteq> a"
    proof (cases "env_servlets s ?n")
      case (Some c)
      with g have "b = c" by (simp add: get_env_servlet_def register_activity_def)
      with Some agree have "actors s ?n = Some b" by simp
      with aE inj other show ?thesis by blast
    next
      case None
      show ?thesis
      proof (cases "actors s ?n")
        case (Some c)
        with None g have "b = c"
          by (simp add: get_env_servlet_def ray_get_or_create_def register_activity_def)
        with Some aE inj other show ?thesis by blast
      next
        case an: None
        with None g have "b = constructed s"
          by (simp add: get_env_servlet_def ray_get_or_create_def register_activity_def)
        with alt show ?thesis by simp
      qed
    qed
    show "env_servlets s1 E = Some a" using g reg other
      by (auto simp: get_env_servlet_def ray_get_or_create_def register_activity_def
          split: option.splits)
    show "store s1 = store s" using g
      by (auto simp: get_env_servlet_def ray_get_or_create_def register_activity_def
          split: option.splits)
  qed
  have s': "snd (snd (put_object g m s))
      = s1\<lparr>store := (store s1)(b := (store s1 b)(msg_key m \<mapsto> msg_data m))\<rparr>"
    using g by (simp add: put_object_state)
  show "env_servlets (snd (snd (put_object g m s))) E = Some a" using e1 by (simp add: s')
  show "store (snd (snd (put_object g m s))) a = store s a" using ba st1 by (simp add: s')
qed

lemma put_all_store:
  assumes "distinct_actors s" and "env_servlets s E = Some a" and "store s a (Some k) = Some v"
  shows "env_servlets (put_all g later s) E = Some a
       \<and> store (put_all g later s) a (Some k)
           = Some (last (v # map msg_data
                (filter (\<lambda>m. or_base (msg_env m) = E \<and> msg_key m = Some k) later)))"
  using assms
proof (induction later arbitrary: s v)
  case Nil
  then show ?case by (simp add: put_all_def)
next
  case (Cons m later)
  let ?s = "snd (snd (put_object g m s))"
  have d: "distinct_actors ?s" by (rule distinct_actors_put_object [OF Cons.prems(1)])
  show ?case
  proof (cases "or_base (msg_env m) = E")
    case True
    with Cons.prems(2) have reg: "env_servlets s (or_base (msg_env m)) = Some a" by simp
    note po = put_object_registered [OF reg, of g]
    have e1: "env_servlets ?s E = Some a" using po(1) Cons.prems(2) by simp
    show ?thesis
    proof (cases "msg_key m = Some k")
      case k: True
      with po(2) [of "Some k"] have "store ?s a (Some k) = Some (msg_data m)" by simp
      from Cons.IH [OF d e1 this] True k show ?thesis by (simp add: put_all_def)
    next
      case False
      with po(2) [of "Some k"] Cons.prems(3) have "store ?s a (Some k) = Some v" by simp
      from Cons.IH [OF d e1 this] False show ?thesis by (simp add: put_all_def)
    qed
  next
    case False
    note pe = put_object_elsewhere [OF Cons.prems(1,2) False, of g]
    from pe(2) Cons.prems(3) have "store ?s a (Some k) = Some v" by simp
    from Cons.IH [OF d pe(1) this] False show ?thesis by (simp add: put_all_def)
  qed
qed

lemma open_all_ok: "\<forall>f\<in>set fs. err f = None \<Longrightarrow> open_all err fs = Inr fs"
  by (induction fs) auto

lemma fetch_pass_present:
  assumes reg: "env_servlets s (target_env g env (Some k)) = Some a"
    and st: "store s a (Some k) = Some v"
    and logs: "sl \<longrightarrow> reads_ok (tick_files t) t"
  shows "\<exists>ys fs s1. fetch_pass g env k sl None [] t s = Got ys (result_response v) fs s1
           \<and> (ys = [] \<or> (\<exists>ls. ys = [stdout_response ls]))"
proof -
  have c1: "call_in_env_servlet g (servlet_get k) env False (Some k) True s
          = (Value (Some (result_response v)), register_activity s)"
    using reg st
    by (simp add: call_in_env_servlet_def call_servlet_method_def get_env_servlet_def
        servlet_get_def register_activity_def)
  show ?thesis
  proof (cases sl)
    case False
    with c1 show ?thesis by (simp add: fetch_pass_def)
  next
    case True
    with logs have ok: "\<forall>f\<in>set (tick_files t). open_error t f = None
        \<and> (case readlines t f of Inl m \<Rightarrow> False | Inr ls \<Rightarrow> True)"
      by (simp add: reads_ok_def list_all_iff)
    have c2: "call_in_env_servlet g (\<lambda>a s'. (Inr (logfiles t), s')) env False (Some k) True
            (register_activity s) = (Value (logfiles t), register_activity (register_activity s))"
      using reg
      by (simp add: call_in_env_servlet_def call_servlet_method_def get_env_servlet_def
          register_activity_def)
    have oa: "open_all (open_error t) (tick_files t) = Inr (tick_files t)"
      using ok by (intro open_all_ok) simp
    have fl: "fetch_logfiles g env k None [] t (register_activity s)
            = (Inr (logfiles t, tick_files t), register_activity (register_activity s))"
      using c2 oa by (simp add: fetch_logfiles_def tick_files_def)
    from read_all_ok [of "tick_files t" "readlines t"] ok obtain ls where
      ra: "read_all (readlines t) (tick_files t) = Inr ls" by auto
    from True c1 fl ra show ?thesis by (auto simp: fetch_pass_def)
  qed
qed

text \<open>
  Claim C1, the claim as stated fails: the fetch reads the log files before it yields the
  object, and no \<open>try\<close> encloses the reading. Here the value is in the store, the fetch
  asks for the logs and the log file cannot be read: the generator ends with the
  exception and yields nothing, so the caller gets no value.
\<close>

theorem unreadable_log_counterexample:
  "store stored_server 0 (Some ''my_list'') = Some (Some ''[5, 7, 9]'')
   \<and> fst (get_object_and_logs_generator (\<lambda>_. None) example_unpickle fetch_message
        [fetch_unreadable_tick] stored_server) = []
   \<and> fst (snd (get_object_and_logs_generator (\<lambda>_. None) example_unpickle fetch_message
        [fetch_unreadable_tick] stored_server)) = Raised (OtherError ''Input/output error'')"
  by (simp add: fetch_defs run_defs fetch_unreadable_tick_def)

text \<open>
  Claim C1, amended. In a state where the registry agrees with the actor runtime, a \<open>put\<close>
  of \<open>v\<close> under \<open>k\<close> goes to an Environment; any further \<open>put\<close>s follow, to whatever
  Environments; then an object fetch of \<open>k\<close> is routed to that Environment and either does
  not stream logs or reads its log files without an error. The fetch closes at its first
  pass and its last Response is the \<open>RESULT\<close> with the value of the latest \<open>put\<close> under \<open>k\<close>
  in that Environment, which is \<open>v\<close> when none followed: never an earlier value, never
  absent. Before it come only batches of log lines.
\<close>

theorem put_then_get_returns_latest:
  assumes "distinct_actors s"
    and "msg_key m0 = Some k"
    and "unpickle (msg_data mg) = Inr (k, sl)"
    and "target_env g2 (msg_env mg) (Some k) = or_base (msg_env m0)"
    and "sl \<longrightarrow> reads_ok (tick_files t) t"
  shows "fst (snd (get_object_and_logs_generator g2 unpickle mg (t # ts)
                  (put_all g later (snd (snd (put_object g m0 s)))))) = Closed
       \<and> fst (get_object_and_logs_generator g2 unpickle mg (t # ts)
                  (put_all g later (snd (snd (put_object g m0 s))))) \<noteq> []
       \<and> last (fst (get_object_and_logs_generator g2 unpickle mg (t # ts)
                  (put_all g later (snd (snd (put_object g m0 s))))))
           = result_response
               (last (msg_data m0 # map msg_data
                  (filter (\<lambda>m. or_base (msg_env m) = or_base (msg_env m0) \<and> msg_key m = Some k)
                     later)))
       \<and> list_all (\<lambda>r. output_type r = STDOUT)
            (butlast (fst (get_object_and_logs_generator g2 unpickle mg (t # ts)
                  (put_all g later (snd (snd (put_object g m0 s)))))))"
proof -
  let ?E = "or_base (msg_env m0)"
  let ?s1 = "snd (snd (put_object g m0 s))"
  let ?s2 = "put_all g later ?s1"
  let ?v = "last (msg_data m0 # map msg_data
              (filter (\<lambda>m. or_base (msg_env m) = ?E \<and> msg_key m = Some k) later))"
  have d1: "distinct_actors ?s1" by (rule distinct_actors_put_object [OF assms(1)])
  from put_object_creates [of g m0 s] assms(2) obtain a where
    reg1: "env_servlets ?s1 ?E = Some a" and st1: "store ?s1 a (Some k) = Some (msg_data m0)"
    by auto
  from put_all_store [OF d1 reg1 st1, of g later]
  have reg2: "env_servlets ?s2 ?E = Some a" and st2: "store ?s2 a (Some k) = Some ?v" by simp_all
  from reg2 assms(4) have reg: "env_servlets ?s2 (target_env g2 (msg_env mg) (Some k)) = Some a"
    by simp
  from fetch_pass_present [OF reg st2 assms(5)] obtain ys fs s3 where
    fp: "fetch_pass g2 (msg_env mg) k sl None [] t ?s2 = Got ys (result_response ?v) fs s3"
    and ys: "ys = [] \<or> (\<exists>ls. ys = [stdout_response ls])" by blast
  have run: "get_object_and_logs_generator g2 unpickle mg (t # ts) ?s2
          = (ys @ [result_response ?v], Closed, fs, s3)"
    using assms(3) fp by (simp add: get_object_and_logs_generator_def)
  from ys show ?thesis unfolding run by (auto simp: stdout_response_def)
qed

theorem put_then_get_returns_latest_witness:
  "distinct_actors running_server
   \<and> msg_key list_message = Some ''my_list''
   \<and> example_unpickle (msg_data fetch_message) = Inr (''my_list'', True)
   \<and> target_env (\<lambda>_. None) (msg_env fetch_message) (Some ''my_list'')
       = or_base (msg_env list_message)
   \<and> reads_ok (tick_files (fetch_logging_tick [''stored''])) (fetch_logging_tick [''stored''])
   \<and> fst (get_object_and_logs_generator (\<lambda>_. None) example_unpickle fetch_message
        (fetch_logging_tick [''stored''] # [])
        (put_all (\<lambda>_. None) [] (snd (snd (put_object (\<lambda>_. None) list_message running_server)))))
       = [stdout_response [''stored''], result_response (Some ''[5, 7, 9]'')]
   \<and> last (fst (get_object_and_logs_generator (\<lambda>_. None) example_unpickle fetch_message
        (fetch_logging_tick [''stored''] # [])
        (put_all (\<lambda>_. None)
           [list_message\<lparr>msg_data := Some ''[5, 7, 9, 11]''\<rparr>,
            list_message\<lparr>msg_env := Some ''pytorch'', msg_data := Some ''[0]''\<rparr>]
           (snd (snd (put_object (\<lambda>_. None) list_message running_server))))))
       = result_response (Some ''[5, 7, 9, 11]'')"
proof -
  have h0: "distinct_actors running_server" by (rule distinct_actors_running)
  have h1: "msg_key list_message = Some ''my_list''" by (simp add: list_message_def)
  have h3: "example_unpickle (msg_data fetch_message) = Inr (''my_list'', True)"
    by (simp add: example_unpickle_def fetch_message_def)
  have h4: "target_env (\<lambda>_. None) (msg_env fetch_message) (Some ''my_list'')
       = or_base (msg_env list_message)"
    by (simp add: target_env_def lookup_env_for_name_def py_or_def fetch_message_def
        list_message_def)
  have h5: "reads_ok (tick_files (fetch_logging_tick [''stored''])) (fetch_logging_tick [''stored''])"
    by (simp add: reads_ok_def tick_files_def fetch_logging_tick_def)
  have h5': "True \<longrightarrow> reads_ok (tick_files (fetch_logging_tick [''stored'']))
      (fetch_logging_tick [''stored''])" using h5 by simp
  have ev: "fst (get_object_and_logs_generator (\<lambda>_. None) example_unpickle fetch_message
        (fetch_logging_tick [''stored''] # [])
        (put_all (\<lambda>_. None) [] (snd (snd (put_object (\<lambda>_. None) list_message running_server)))))
       = [stdout_response [''stored''], result_response (Some ''[5, 7, 9]'')]"
    by (simp add: put_all_def fetch_defs run_defs)
  from put_then_get_returns_latest [where s = running_server and ?m0.0 = list_message
      and k = "''my_list''"
      and later = "[list_message\<lparr>msg_data := Some ''[5, 7, 9, 11]''\<rparr>,
            list_message\<lparr>msg_env := Some ''pytorch'', msg_data := Some ''[0]''\<rparr>]"
      and unpickle = example_unpickle and mg = fetch_message and sl = True
      and ?g2.0 = "\<lambda>_. None" and t = "fetch_logging_tick [''stored'']" and ts = "[]"
      and g = "\<lambda>_. None", OF h0 h1 h3 h4 h5']
  have "last (fst (get_object_and_logs_generator (\<lambda>_. None) example_unpickle fetch_message
        (fetch_logging_tick [''stored''] # [])
        (put_all (\<lambda>_. None)
           [list_message\<lparr>msg_data := Some ''[5, 7, 9, 11]''\<rparr>,
            list_message\<lparr>msg_env := Some ''pytorch'', msg_data := Some ''[0]''\<rparr>]
           (snd (snd (put_object (\<lambda>_. None) list_message running_server))))))
       = result_response (Some ''[5, 7, 9, 11]'')"
    by (simp add: list_message_def or_base_def py_or_def)
  with h0 h1 h3 h4 h5 ev show ?thesis by blast
qed

end
